theory Spec2Isabelle
  imports Main "HOL-Library.Char_ord" "HOL-Library.List_Lexorder"
begin

section \<open>Strings\<close>

text \<open>
  A Go string is a sequence of bytes; it is modelled as \<open>string\<close> (a \<open>char list\<close>, one
  \<open>char\<close> per byte). The order on \<open>char\<close> is the order of the byte values and the order
  on strings is the lexicographic one, which is how Go compares strings.
\<close>

definition dquote :: char where
  "dquote = CHR 0x22"

text \<open>\<open>fmt\<close>'s verb \<open>%d\<close> on an \<open>int\<close>: decimal digits, with a minus sign when negative.\<close>

fun digits :: "nat \<Rightarrow> string" where
  "digits n = (if n < 10 then [''0123456789'' ! n]
               else digits (n div 10) @ [''0123456789'' ! (n mod 10)])"

declare digits.simps [simp del]

definition fmt_d :: "int \<Rightarrow> string" where
  "fmt_d i = (if i < 0 then ''-'' @ digits (nat (- i)) else digits (nat i))"

text \<open>
  \<open>strings.ReplaceAll(s, old, new)\<close>: the non-overlapping occurrences of \<open>old\<close> are replaced
  from the left; with an empty \<open>old\<close>, \<open>new\<close> is inserted before every element and at the end.
\<close>

function ReplaceAll :: "string \<Rightarrow> string \<Rightarrow> string \<Rightarrow> string" where
  "ReplaceAll [] old new = (if old = [] then new else [])"
| "ReplaceAll (c # cs) old new =
     (if old = [] then new @ c # ReplaceAll cs old new
      else if take (length old) (c # cs) = old
           then new @ ReplaceAll (drop (length old) (c # cs)) old new
           else c # ReplaceAll cs old new)"
  by pat_completeness auto
termination
  by (relation "measure (\<lambda>(s, old, new). length s)") auto

subsection \<open>White space\<close>

text \<open>
  The class \<open>\s\<close> of Go's \<open>regexp\<close> package is \<open>[\t\n\f\r ]\<close>.
\<close>

definition perl_space :: "char \<Rightarrow> bool" where
  "perl_space c = (c \<in> set [CHR 0x09, CHR 0x0A, CHR 0x0C, CHR 0x0D, CHR 0x20])"

text \<open>
  \<open>strings.TrimSpace\<close> removes the leading and trailing white space of Unicode
  (\<open>unicode.IsSpace\<close>): the six ASCII characters \<open>\t \n \v \f \r\<close> and space, and
  U+0085, U+00A0, U+1680, U+2000 to U+200A, U+2028, U+2029, U+202F, U+205F, U+3000,
  here in their UTF-8 encodings. \<open>space_len s\<close> is the number of bytes of the white space
  character that \<open>s\<close> starts with, \<open>space_len_back\<close> the same for a reversed string.
\<close>

definition space_len :: "string \<Rightarrow> nat option" where
  "space_len s =
     (case s of
        [] \<Rightarrow> None
      | a # r \<Rightarrow>
          if a \<in> set [CHR 0x09, CHR 0x0A, CHR 0x0B, CHR 0x0C, CHR 0x0D, CHR 0x20] then Some 1
          else (case r of
             [] \<Rightarrow> None
           | b # r' \<Rightarrow>
               if a = CHR 0xC2 \<and> (b = CHR 0x85 \<or> b = CHR 0xA0) then Some 2
               else (case r' of
                  [] \<Rightarrow> None
                | c # _ \<Rightarrow>
                    if (a = CHR 0xE1 \<and> b = CHR 0x9A \<and> c = CHR 0x80)
                       \<or> (a = CHR 0xE2 \<and> b = CHR 0x80 \<and>
                            ((CHR 0x80 \<le> c \<and> c \<le> CHR 0x8A) \<or> c = CHR 0xA8 \<or> c = CHR 0xA9 \<or> c = CHR 0xAF))
                       \<or> (a = CHR 0xE2 \<and> b = CHR 0x81 \<and> c = CHR 0x9F)
                       \<or> (a = CHR 0xE3 \<and> b = CHR 0x80 \<and> c = CHR 0x80)
                    then Some 3 else None)))"

definition space_len_back :: "string \<Rightarrow> nat option" where
  "space_len_back r =
     (case r of
        [] \<Rightarrow> None
      | c # _ \<Rightarrow>
          if space_len [c] = Some 1 then Some 1
          else if space_len (rev (take 2 r)) = Some 2 then Some 2
          else if space_len (rev (take 3 r)) = Some 3 then Some 3
          else None)"

lemma space_len_bound: "space_len s = Some n \<Longrightarrow> 0 < n \<and> n \<le> length s"
  by (auto simp: space_len_def split: list.splits if_splits)

lemma space_len_back_bound: "space_len_back s = Some n \<Longrightarrow> 0 < n \<and> n \<le> length s"
  by (auto simp: space_len_back_def split: list.splits if_splits dest: space_len_bound)

function TrimLeft :: "string \<Rightarrow> string" where
  "TrimLeft s = (case space_len s of None \<Rightarrow> s | Some n \<Rightarrow> TrimLeft (drop n s))"
  by pat_completeness auto
termination
  by (relation "measure length") (auto dest: space_len_bound)

declare TrimLeft.simps [simp del]

function TrimBack :: "string \<Rightarrow> string" where
  "TrimBack r = (case space_len_back r of None \<Rightarrow> r | Some n \<Rightarrow> TrimBack (drop n r))"
  by pat_completeness auto
termination
  by (relation "measure length") (auto dest: space_len_back_bound)

declare TrimBack.simps [simp del]

definition TrimSpace :: "string \<Rightarrow> string" where
  "TrimSpace s = rev (TrimBack (rev (TrimLeft s)))"

section \<open>Regular expressions\<close>

text \<open>
  The two patterns of the program use literals, bracket classes (possibly negated, with
  ranges and \<open>\s\<close>), concatenation and star. A pattern is a value of \<open>regex\<close>; matching is
  by derivatives.
\<close>

datatype citem = Single char | Range char char | PerlSpace

fun item_has :: "citem \<Rightarrow> char \<Rightarrow> bool" where
  "item_has (Single a) c = (c = a)"
| "item_has (Range lo hi) c = (lo \<le> c \<and> c \<le> hi)"
| "item_has PerlSpace c = perl_space c"

datatype regex =
    RNone
  | REmpty
  | RClass bool "citem list"
  | RAlt regex regex
  | RSeq regex regex
  | RStar regex

text \<open>\<open>RClass neg items\<close> is the bracket class of \<open>items\<close>, negated when \<open>neg\<close> holds.\<close>

definition class_has :: "bool \<Rightarrow> citem list \<Rightarrow> char \<Rightarrow> bool" where
  "class_has neg items c = (list_ex (\<lambda>i. item_has i c) items \<noteq> neg)"

fun nullable :: "regex \<Rightarrow> bool" where
  "nullable RNone = False"
| "nullable REmpty = True"
| "nullable (RClass neg items) = False"
| "nullable (RAlt r s) = (nullable r \<or> nullable s)"
| "nullable (RSeq r s) = (nullable r \<and> nullable s)"
| "nullable (RStar r) = True"

fun deriv :: "char \<Rightarrow> regex \<Rightarrow> regex" where
  "deriv c RNone = RNone"
| "deriv c REmpty = RNone"
| "deriv c (RClass neg items) = (if class_has neg items c then REmpty else RNone)"
| "deriv c (RAlt r s) = RAlt (deriv c r) (deriv c s)"
| "deriv c (RSeq r s) =
     (if nullable r then RAlt (RSeq (deriv c r) s) (deriv c s) else RSeq (deriv c r) s)"
| "deriv c (RStar r) = RSeq (deriv c r) (RStar r)"

text \<open>The whole text matches: what \<open>MatchString\<close> decides for a pattern \<open>^...$\<close>.\<close>

fun match_all :: "regex \<Rightarrow> string \<Rightarrow> bool" where
  "match_all r [] = nullable r"
| "match_all r (c # cs) = match_all (deriv c r) cs"

text \<open>Some prefix of the text matches.\<close>

fun match_prefix :: "regex \<Rightarrow> string \<Rightarrow> bool" where
  "match_prefix r [] = nullable r"
| "match_prefix r (c # cs) = (nullable r \<or> match_prefix (deriv c r) cs)"

text \<open>
  Some part of the text matches: \<open>FindStringIndex\<close> returns a location (not \<open>nil\<close>)
  exactly then.
\<close>

fun match_somewhere :: "regex \<Rightarrow> string \<Rightarrow> bool" where
  "match_somewhere r [] = nullable r"
| "match_somewhere r (c # cs) = (match_prefix r (c # cs) \<or> match_somewhere r cs)"

section \<open>Statement Guard and Identifier Quoter\<close>

text \<open>\<^verbatim>\<open>var multiStmtRe = regexp.MustCompile(`;\s*[^\s]`)\<close>\<close>

definition multiStmtRe :: regex where
  "multiStmtRe =
     RSeq (RClass False [Single (CHR '';'')])
       (RSeq (RStar (RClass False [PerlSpace])) (RClass True [PerlSpace]))"

definition hasMultipleStatements :: "string \<Rightarrow> bool" where
  "hasMultipleStatements q = match_somewhere multiStmtRe q"

text \<open>
  The pattern \<^verbatim>\<open>^[a-z_][a-z0-9_]*$\<close> of \<open>pgIdent\<close>; without flags, \<open>^\<close> and \<open>$\<close> are the
  two ends of the text, so that \<open>MatchString\<close> is a match of the whole name.
\<close>

definition identRe :: regex where
  "identRe =
     RSeq (RClass False [Range (CHR ''a'') (CHR ''z''), Single (CHR ''_'')])
       (RStar (RClass False [Range (CHR ''a'') (CHR ''z''), Range (CHR ''0'') (CHR ''9''),
                             Single (CHR ''_'')]))"

definition pgIdent :: "string \<Rightarrow> string" where
  "pgIdent name =
     (if name = [] then name
      else if match_all identRe name then name
      else [dquote] @ ReplaceAll name [dquote] [dquote, dquote] @ [dquote])"

section \<open>Database driver\<close>

text \<open>
  The driver (\<open>pgx\<close>) and the database are outside the program. A driver error is a value
  with its message. A value of a result row is \<open>nil\<close> for NULL, or a Go value: a string, an
  integer or a boolean here.
\<close>

datatype error = Error string

fun errText :: "error \<Rightarrow> string" where
  "errText (Error m) = m"

datatype val = VNil | VText string | VInt int | VBool bool

text \<open>\<open>fmt.Sprint(v)\<close>, the default format of a value.\<close>

fun Sprint :: "val \<Rightarrow> string" where
  "Sprint VNil = ''<nil>''"
| "Sprint (VText t) = t"
| "Sprint (VInt i) = fmt_d i"
| "Sprint (VBool b) = (if b then ''true'' else ''false'')"

text \<open>
  \<open>pgx.Rows\<close>: the field descriptions, then one item per row that \<open>Next\<close> delivers (its
  values, or the error that decoding it gives), and the error that \<open>Err\<close> reports once
  \<open>Next\<close> has returned false. \<open>elapsed\<close> is the text that
  \<open>time.Since(started).Truncate(time.Millisecond)\<close> prints in the success message: the
  time a query takes is decided by the environment.
\<close>

record Rows =
  FieldDescriptions :: "string list"
  rowItems :: "(error + val list) list"
  rowsErr :: "error option"
  elapsed :: string

text \<open>\<open>s.pool.Query(ctx, sql, args...)\<close>: an error, or rows.\<close>

type_synonym pool = "string \<Rightarrow> string list \<Rightarrow> error + Rows"

text \<open>
  \<open>rows.Scan\<close> into destinations of type \<open>*string\<close>: a text value is stored as it is and an
  integer as its decimal text; NULL and a boolean cannot be stored. \<open>i\<close> is the index of the
  destination, named in the message of the error.
\<close>

fun scanString :: "nat \<Rightarrow> val \<Rightarrow> error + string" where
  "scanString i (VText t) = Inr t"
| "scanString i (VInt n) = Inr (fmt_d n)"
| "scanString i VNil =
     Inl (Error (''can't scan into dest['' @ digits i @ '']: cannot scan NULL into *string''))"
| "scanString i (VBool b) =
     Inl (Error (''can't scan into dest['' @ digits i @
                 '']: cannot scan bool (OID 16) in binary format into *string''))"

definition scanCount :: "nat \<Rightarrow> nat \<Rightarrow> error" where
  "scanCount nf nd =
     Error (''number of field descriptions must equal number of destinations, got '' @
            digits nf @ '' and '' @ digits nd)"

fun Scan1 :: "error + val list \<Rightarrow> error + string" where
  "Scan1 (Inl err) = Inl err"
| "Scan1 (Inr [v]) = scanString 0 v"
| "Scan1 (Inr vs) = Inl (scanCount (length vs) 1)"

fun Scan3 :: "error + val list \<Rightarrow> error + string list" where
  "Scan3 (Inl err) = Inl err"
| "Scan3 (Inr [a, b, c]) =
     (case scanString 0 a of
        Inl err \<Rightarrow> Inl err
      | Inr x \<Rightarrow>
          (case scanString 1 b of
             Inl err \<Rightarrow> Inl err
           | Inr y \<Rightarrow> (case scanString 2 c of Inl err \<Rightarrow> Inl err | Inr z \<Rightarrow> Inr [x, y, z])))"
| "Scan3 (Inr vs) = Inl (scanCount (length vs) 3)"

subsection \<open>The queries of the program\<close>

definition indent :: string where
  "indent = [CHR 0x0A, CHR 0x09, CHR 0x09]"

definition schemataSQL :: string where
  "schemataSQL =
     indent @ ''SELECT schema_name'' @
     indent @ ''FROM information_schema.schemata'' @
     indent @ ''WHERE schema_name NOT IN ('pg_toast', 'pg_temp_1', 'pg_toast_temp_1')'' @
     indent @ ''ORDER BY schema_name''"

definition tablesSQL :: string where
  "tablesSQL =
     indent @ ''SELECT table_name'' @
     indent @ ''FROM information_schema.tables'' @
     indent @ ''WHERE table_schema = $1 AND table_type = 'BASE TABLE'' @ [CHR 0x27] @
     indent @ ''ORDER BY table_name''"

definition columnsSQL :: string where
  "columnsSQL =
     indent @ ''SELECT column_name, data_type, is_nullable'' @
     indent @ ''FROM information_schema.columns'' @
     indent @ ''WHERE table_schema = $1 AND table_name = $2'' @
     indent @ ''ORDER BY ordinal_position''"

subsection \<open>The database engine on the schema query\<close>

text \<open>
  The engine reads the text that it is sent. The text is cut into tokens at white space,
  parentheses and commas; a literal stands between single quotes, a doubled quote inside
  it being one quote.
\<close>

datatype token = TWord string | TString string | TLParen | TRParen | TComma | TBad

definition flush :: "string \<Rightarrow> token list" where
  "flush w = (if w = [] then [] else [TWord w])"

fun lex :: "string \<Rightarrow> string \<Rightarrow> token list"
  and lexString :: "string \<Rightarrow> string \<Rightarrow> token list" where
  "lex w [] = flush w"
| "lex w (c # cs) =
     (if perl_space c then flush w @ lex [] cs
      else if c = CHR ''('' then flush w @ TLParen # lex [] cs
      else if c = CHR '')'' then flush w @ TRParen # lex [] cs
      else if c = CHR '','' then flush w @ TComma # lex [] cs
      else if c = CHR 0x27 then flush w @ lexString [] cs
      else lex (w @ [c]) cs)"
| "lexString lit [] = [TBad]"
| "lexString lit [c] = (if c = CHR 0x27 then [TString lit] else [TBad])"
| "lexString lit (c # d # cs) =
     (if c = CHR 0x27 \<and> d = CHR 0x27 then lexString (lit @ [CHR 0x27]) cs
      else if c = CHR 0x27 then TString lit # lex [] (d # cs)
      else lexString (lit @ [c]) (d # cs))"

text \<open>The literals of a list \<open>'a', 'b', ... )\<close> and the tokens after it.\<close>

fun in_list :: "token list \<Rightarrow> (string list \<times> token list) option" where
  "in_list (TString a # t # rest) =
     (if t = TComma
      then (case in_list rest of Some (lits, r) \<Rightarrow> Some (a # lits, r) | None \<Rightarrow> None)
      else if t = TRParen then Some ([a], rest)
      else None)"
| "in_list toks = None"

text \<open>
  A query of the form
  \<open>SELECT schema_name FROM information_schema.schemata WHERE schema_name NOT IN (...)
  ORDER BY schema_name\<close>, keywords and names written as the program writes them: its list
  of literals.
\<close>

definition parse_schemata :: "token list \<Rightarrow> string list option" where
  "parse_schemata toks =
     (if take 9 toks =
           [TWord ''SELECT'', TWord ''schema_name'', TWord ''FROM'',
            TWord ''information_schema.schemata'', TWord ''WHERE'', TWord ''schema_name'',
            TWord ''NOT'', TWord ''IN'', TLParen]
      then (case in_list (drop 9 toks) of
              Some (lits, rest) \<Rightarrow>
                if rest = [TWord ''ORDER'', TWord ''BY'', TWord ''schema_name''] then Some lits
                else None
            | None \<Rightarrow> None)
      else None)"

text \<open>
  A database whose catalog holds the schema names \<open>catalog\<close> (in the order of the engine's
  collation, the order of \<open>ORDER BY schema_name\<close>). To a query of the form above it
  answers with the names that are not among the literals of the query; every other query
  is answered by \<open>other\<close>.
\<close>

definition pg_schemata :: "string list \<Rightarrow> pool \<Rightarrow> pool" where
  "pg_schemata catalog other sql args =
     (case parse_schemata (lex [] sql) of
        Some lits \<Rightarrow>
          if args = []
          then Inr \<lparr>FieldDescriptions = [''schema_name''],
                    rowItems = map (\<lambda>n. Inr [VText n]) (filter (\<lambda>n. n \<notin> set lits) catalog),
                    rowsErr = None, elapsed = ''1ms''\<rparr>
          else Inl (Error ''bind message supplies parameters, but prepared statement requires 0'')
      | None \<Rightarrow> other sql args)"

section \<open>Widgets\<close>

text \<open>
  Of \<open>tview\<close>, the program uses \<open>List.Clear\<close> and \<open>List.AddItem\<close>, \<open>Table.Clear\<close> and
  \<open>Table.SetCell\<close>, and \<open>TextView.SetText\<close>. A list is the sequence of the main texts of
  its items (secondary text, shortcut and callback of an item are not modelled); a table
  maps a position (row, column) to the text of its cell (the attributes of a cell are not
  modelled).
\<close>

type_synonym table = "nat \<times> nat \<Rightarrow> string option"

definition ListClear :: "string list" where
  "ListClear = []"

definition AddItem :: "string \<Rightarrow> string list \<Rightarrow> string list" where
  "AddItem mainText l = l @ [mainText]"

definition TableClear :: table where
  "TableClear = (\<lambda>p. None)"

definition SetCell :: "nat \<Rightarrow> nat \<Rightarrow> string \<Rightarrow> table \<Rightarrow> table" where
  "SetCell row column cell t = t((row, column) \<mapsto> cell)"

definition headerText :: "nat \<Rightarrow> string \<Rightarrow> string" where
  "headerText i h = (if i > 0 then '' | '' @ h @ '' '' else '' '' @ h @ '' '')"

definition setHeader :: "table \<Rightarrow> string list \<Rightarrow> table" where
  "setHeader t cols = fold (\<lambda>(i, h). SetCell 0 i (headerText i h)) (enumerate 0 cols) t"

definition cellText :: "nat \<Rightarrow> string \<Rightarrow> string" where
  "cellText i v = (if i > 0 then '' | '' @ v else v)"

definition setRow :: "table \<Rightarrow> nat \<Rightarrow> string list \<Rightarrow> table" where
  "setRow t row cols = fold (\<lambda>(i, v). SetCell row i (cellText i v)) (enumerate 0 cols) t"

section \<open>Application state\<close>

text \<open>
  \<open>AppState\<close> with the fields the operations read or write. \<open>queries\<close> records every
  call of \<open>s.pool.Query\<close> (the text and the arguments), in order. \<open>now\<close> is the time in
  milliseconds and \<open>sleepers\<close> holds, for every goroutine that \<open>toast\<close> has started and
  that still sleeps, the time at which its sleep ends.
\<close>

record AppState =
  schemaList :: "string list"
  tableList :: "string list"
  columnTable :: table
  resultTable :: table
  statusBar :: string
  previewLimit :: int
  currentSchema :: string
  currentTable :: string
  queries :: "(string \<times> string list) list"
  now :: nat
  sleepers :: "nat list"

definition initState :: "int \<Rightarrow> AppState" where
  "initState limit =
     \<lparr>schemaList = [], tableList = [], columnTable = TableClear, resultTable = TableClear,
      statusBar = [], previewLimit = limit, currentSchema = [], currentTable = [],
      queries = [], now = 0, sleepers = []\<rparr>"

datatype tableRef = ColumnTableRef | ResultTableRef

fun getTable :: "tableRef \<Rightarrow> AppState \<Rightarrow> table" where
  "getTable ColumnTableRef s = columnTable s"
| "getTable ResultTableRef s = resultTable s"

fun putTable :: "tableRef \<Rightarrow> table \<Rightarrow> AppState \<Rightarrow> AppState" where
  "putTable ColumnTableRef t s = s\<lparr>columnTable := t\<rparr>"
| "putTable ResultTableRef t s = s\<lparr>resultTable := t\<rparr>"

definition Query :: "pool \<Rightarrow> string \<Rightarrow> string list \<Rightarrow> AppState \<Rightarrow> (error + Rows) \<times> AppState" where
  "Query pool sql args s = (pool sql args, s\<lparr>queries := queries s @ [(sql, args)]\<rparr>)"

section \<open>Notifications\<close>

definition idleStatus :: string where
  "idleStatus = ''F5: Run | q: Quit | r: Refresh | Tab: Cycle Focus''"

definition updateStatus :: "string \<Rightarrow> AppState \<Rightarrow> AppState" where
  "updateStatus msg s = s\<lparr>statusBar := msg\<rparr>"

text \<open>
  \<open>toast\<close> (its argument is the message already formatted) sets the text of the status bar
  and starts a goroutine that sleeps for three seconds and then queues
  \<open>updateStatus\<close> with the idle text.
\<close>

definition toast :: "string \<Rightarrow> AppState \<Rightarrow> AppState" where
  "toast msg s = s\<lparr>statusBar := ''[yellow]'' @ msg, sleepers := sleepers s @ [now s + 3000]\<rparr>"

text \<open>
  \<open>d\<close> milliseconds pass: every goroutine whose sleep has ended queues its update, and the
  event loop runs the queued updates.
\<close>

definition elapse :: "nat \<Rightarrow> AppState \<Rightarrow> AppState" where
  "elapse d s =
     (let t = now s + d;
          woken = filter (\<lambda>w. w \<le> t) (sleepers s);
          s1 = s\<lparr>now := t, sleepers := filter (\<lambda>w. t < w) (sleepers s)\<rparr>
      in fold (\<lambda>w. updateStatus idleStatus) woken s1)"

section \<open>Operations\<close>

text \<open>The body of the inner loop of \<open>runQueryInto\<close>: the cell of one value.\<close>

definition stringify :: "val \<Rightarrow> string" where
  "stringify v = (if v = VNil then ''NULL'' else Sprint v)"

fun rowLoop :: "(error + val list) list \<Rightarrow> nat \<Rightarrow> table \<Rightarrow> table \<times> nat \<times> error option" where
  "rowLoop [] row t = (t, row, None)"
| "rowLoop (Inl err # rest) row t = (t, row, Some err)"
| "rowLoop (Inr vals # rest) row t = rowLoop rest (row + 1) (setRow t row (map stringify vals))"

text \<open>
  \<open>runQueryInto\<close>: the query is sent; on its error the notification is posted and nothing
  else happens. Otherwise the target table is cleared, the header is set, and the rows are
  written into the table one by one as they are read; an error in a row or after the last
  row posts its notification and returns, the table staying as it is at that point.
  (\<open>ScrollToBeginning\<close> changes the offset of the view only and is not modelled.)
\<close>

definition runQueryInto :: "pool \<Rightarrow> string \<Rightarrow> tableRef \<Rightarrow> AppState \<Rightarrow> AppState" where
  "runQueryInto pool q tbl s =
     (case Query pool q [] s of
        (Inl err, s0) \<Rightarrow> toast (''query error: '' @ errText err) s0
      | (Inr rows, s0) \<Rightarrow>
          (let headers = FieldDescriptions rows;
               s1 = putTable tbl (setHeader TableClear headers) s0
           in case rowLoop (rowItems rows) 1 (getTable tbl s1) of
                (t, row, Some err) \<Rightarrow> toast (''row error: '' @ errText err) (putTable tbl t s1)
              | (t, row, None) \<Rightarrow>
                  (case rowsErr rows of
                     Some err \<Rightarrow> toast (''rows err: '' @ errText err) (putTable tbl t s1)
                   | None \<Rightarrow>
                       toast (fmt_d (int row - 1) @ '' rows in '' @ elapsed rows)
                         (putTable tbl t s1))))"

definition previewTable :: "pool \<Rightarrow> string \<Rightarrow> string \<Rightarrow> AppState \<Rightarrow> AppState" where
  "previewTable pool schema table s =
     (let ident = pgIdent schema @ ''.'' @ pgIdent table;
          q = ''SELECT * FROM '' @ ident @ '' LIMIT '' @ fmt_d (previewLimit s)
      in runQueryInto pool q ResultTableRef s)"

definition runAdhocQuery :: "pool \<Rightarrow> string \<Rightarrow> AppState \<Rightarrow> AppState" where
  "runAdhocQuery pool q0 s =
     (let q = TrimSpace q0
      in if q = [] then s
         else if hasMultipleStatements q
              then toast ''Multiple statements detected; please run one at a time.'' s
              else runQueryInto pool q ResultTableRef s)"

fun columnLoop :: "(error + val list) list \<Rightarrow> nat \<Rightarrow> table \<Rightarrow> table \<times> error option" where
  "columnLoop [] row t = (t, None)"
| "columnLoop (item # rest) row t =
     (case Scan3 item of
        Inl err \<Rightarrow> (t, Some err)
      | Inr cols \<Rightarrow> columnLoop rest (row + 1) (setRow t row cols))"

definition loadColumns :: "pool \<Rightarrow> string \<Rightarrow> string \<Rightarrow> AppState \<Rightarrow> AppState" where
  "loadColumns pool schema table s =
     (case Query pool columnsSQL [schema, table] s of
        (Inl err, s0) \<Rightarrow> toast (''load columns: '' @ errText err) s0
      | (Inr rows, s0) \<Rightarrow>
          (let s1 = s0\<lparr>columnTable := setHeader TableClear [''Column'', ''Type'', ''Nullable'']\<rparr>
           in case columnLoop (rowItems rows) 1 (columnTable s1) of
                (t, Some err) \<Rightarrow> toast (''scan: '' @ errText err) (s1\<lparr>columnTable := t\<rparr>)
              | (t, None) \<Rightarrow> s1\<lparr>columnTable := t\<rparr>))"

text \<open>The loop \<open>for rows.Next() { ... Scan(&n) ... append }\<close> of the two list loaders.\<close>

fun scanNames :: "(error + val list) list \<Rightarrow> string list \<Rightarrow> error + string list" where
  "scanNames [] names = Inr names"
| "scanNames (item # rest) names =
     (case Scan1 item of Inl err \<Rightarrow> Inl err | Inr n \<Rightarrow> scanNames rest (names @ [n]))"

definition loadTables :: "pool \<Rightarrow> string \<Rightarrow> AppState \<Rightarrow> AppState" where
  "loadTables pool schema s =
     (case Query pool tablesSQL [schema] s of
        (Inl err, s0) \<Rightarrow> toast (''load tables: '' @ errText err) s0
      | (Inr rows, s0) \<Rightarrow>
          (let s1 = s0\<lparr>tableList := ListClear\<rparr>
           in case scanNames (rowItems rows) [] of
                Inl err \<Rightarrow> toast (''scan: '' @ errText err) s1
              | Inr tables \<Rightarrow>
                  (let s2 = s1\<lparr>tableList := fold AddItem tables (tableList s1)\<rparr>
                   in if length tables > 0
                      then previewTable pool schema (tables ! 0)
                             (loadColumns pool schema (tables ! 0)
                                (s2\<lparr>currentTable := tables ! 0\<rparr>))
                      else s2\<lparr>columnTable := TableClear, resultTable := TableClear\<rparr>)))"

definition loadSchemas :: "pool \<Rightarrow> AppState \<Rightarrow> error option \<times> AppState" where
  "loadSchemas pool s =
     (case Query pool schemataSQL [] s of
        (Inl err, s0) \<Rightarrow> (Some err, s0)
      | (Inr rows, s0) \<Rightarrow>
          (let s1 = s0\<lparr>schemaList := ListClear\<rparr>
           in case scanNames (rowItems rows) [] of
                Inl err \<Rightarrow> (Some err, s1)
              | Inr names \<Rightarrow>
                  (let schemas = sort names;
                       s2 = s1\<lparr>schemaList := fold AddItem schemas (schemaList s1)\<rparr>;
                       s3 = (if length schemas > 0
                             then loadTables pool (schemas ! 0) (s2\<lparr>currentSchema := schemas ! 0\<rparr>)
                             else s2)
                   in (rowsErr rows, s3))))"

text \<open>The two selection callbacks of \<open>initUI\<close> (\<open>SetSelectedFunc\<close> of the two lists).\<close>

definition selectSchema :: "pool \<Rightarrow> string \<Rightarrow> AppState \<Rightarrow> AppState" where
  "selectSchema pool mainText s = loadTables pool mainText (s\<lparr>currentSchema := mainText\<rparr>)"

definition selectTable :: "pool \<Rightarrow> string \<Rightarrow> AppState \<Rightarrow> AppState" where
  "selectTable pool mainText s =
     (let s1 = s\<lparr>currentTable := mainText\<rparr>
      in previewTable pool (currentSchema s1) (currentTable s1)
           (loadColumns pool (currentSchema s1) (currentTable s1) s1))"

text \<open>The key \<open>r\<close> of the global key bindings, and the start of the program in \<open>main\<close>.\<close>

definition refresh :: "pool \<Rightarrow> AppState \<Rightarrow> AppState" where
  "refresh pool s = toast ''Refreshed schemas and tables.'' (snd (loadSchemas pool s))"

definition startup :: "pool \<Rightarrow> int \<Rightarrow> AppState" where
  "startup pool limit =
     (case loadSchemas pool (initState limit) of
        (Some err, s) \<Rightarrow>
          updateStatus idleStatus (toast (''Failed to load schemas: '' @ errText err) s)
      | (None, s) \<Rightarrow> updateStatus idleStatus s)"

section \<open>The words matched by a pattern\<close>

inductive_set star :: "string set \<Rightarrow> string set" for A :: "string set" where
  star_nil: "[] \<in> star A"
| star_app: "u \<in> A \<Longrightarrow> v \<in> star A \<Longrightarrow> u @ v \<in> star A"

fun lang :: "regex \<Rightarrow> string set" where
  "lang RNone = {}"
| "lang REmpty = {[]}"
| "lang (RClass neg items) = {[c] | c. class_has neg items c}"
| "lang (RAlt r s) = lang r \<union> lang s"
| "lang (RSeq r s) = {u @ v | u v. u \<in> lang r \<and> v \<in> lang s}"
| "lang (RStar r) = star (lang r)"

text \<open>
  The unquoted identifiers in the words of the specification: a lowercase letter or an
  underscore, followed by lowercase letters, digits and underscores.
\<close>

definition ident_first :: "char \<Rightarrow> bool" where
  "ident_first c = ((CHR ''a'' \<le> c \<and> c \<le> CHR ''z'') \<or> c = CHR ''_'')"

definition ident_rest :: "char \<Rightarrow> bool" where
  "ident_rest c =
     ((CHR ''a'' \<le> c \<and> c \<le> CHR ''z'') \<or> (CHR ''0'' \<le> c \<and> c \<le> CHR ''9'') \<or> c = CHR ''_'')"

definition plain_ident :: "string \<Rightarrow> bool" where
  "plain_ident name =
     (case name of [] \<Rightarrow> False | c # cs \<Rightarrow> ident_first c \<and> list_all ident_rest cs)"

section \<open>The rows and cells of a result\<close>

text \<open>
  The rows that \<open>Next\<close> delivers before the first row that fails to decode, and the error
  of that row.
\<close>

fun decoded :: "(error + val list) list \<Rightarrow> val list list" where
  "decoded [] = []"
| "decoded (Inl err # rest) = []"
| "decoded (Inr vals # rest) = vals # decoded rest"

fun first_error :: "(error + val list) list \<Rightarrow> error option" where
  "first_error [] = None"
| "first_error (Inl err # rest) = Some err"
| "first_error (Inr vals # rest) = first_error rest"

text \<open>
  The table that shows a header line and result rows: line 0 holds the header cells, line
  \<open>r + 1\<close> the cells of row \<open>r\<close>, and no other position holds a cell.
\<close>

definition rowsShown :: "nat \<Rightarrow> val list list \<Rightarrow> table \<Rightarrow> table" where
  "rowsShown row good t p =
     (if row \<le> fst p \<and> fst p < row + length good \<and> snd p < length (good ! (fst p - row))
      then Some (cellText (snd p) (stringify (good ! (fst p - row) ! snd p)))
      else t p)"

definition headerShown :: "string list \<Rightarrow> table" where
  "headerShown headers p =
     (if fst p = 0 \<and> snd p < length headers then Some (headerText (snd p) (headers ! snd p))
      else None)"

definition shown :: "string list \<Rightarrow> val list list \<Rightarrow> table" where
  "shown headers good = rowsShown 1 good (headerShown headers)"

section \<open>Navigation\<close>

text \<open>
  The states that the operations reach from the initial state, with any database behind
  each operation. A selection callback runs for an item of its list.
\<close>

inductive reachable :: "AppState \<Rightarrow> bool" where
  r_init: "reachable (initState limit)"
| r_loadSchemas: "reachable s \<Longrightarrow> reachable (snd (loadSchemas pool s))"
| r_loadTables: "reachable s \<Longrightarrow> reachable (loadTables pool schema s)"
| r_selectSchema:
    "reachable s \<Longrightarrow> name \<in> set (schemaList s) \<Longrightarrow> reachable (selectSchema pool name s)"
| r_selectTable:
    "reachable s \<Longrightarrow> name \<in> set (tableList s) \<Longrightarrow> reachable (selectTable pool name s)"
| r_runAdhocQuery: "reachable s \<Longrightarrow> reachable (runAdhocQuery pool q s)"
| r_refresh: "reachable s \<Longrightarrow> reachable (refresh pool s)"
| r_startup: "reachable (startup pool limit)"
| r_elapse: "reachable s \<Longrightarrow> reachable (elapse d s)"

definition listed :: "AppState \<Rightarrow> bool" where
  "listed s = (tableList s = [] \<or> currentTable s \<in> set (tableList s))"

text \<open>The six white space characters of ASCII.\<close>

definition ascii_space :: "char \<Rightarrow> bool" where
  "ascii_space c = (c \<in> set [CHR 0x09, CHR 0x0A, CHR 0x0B, CHR 0x0C, CHR 0x0D, CHR 0x20])"

section \<open>Example databases\<close>

definition first_rows :: Rows where
  "first_rows =
     \<lparr>FieldDescriptions = [''id''], rowItems = [Inr [VInt 1], Inr [VInt 2] ], rowsErr = None,
      elapsed = ''1ms''\<rparr>"

definition broken_rows :: Rows where
  "broken_rows =
     \<lparr>FieldDescriptions = [''n''], rowItems = [Inr [VInt 7], Inl (Error ''decode'')],
      rowsErr = None, elapsed = ''1ms''\<rparr>"

definition timeout_rows :: Rows where
  "timeout_rows =
     \<lparr>FieldDescriptions = [''n''], rowItems = [Inr [VInt 7] ],
      rowsErr = Some (Error ''context deadline exceeded''), elapsed = ''30s''\<rparr>"

definition null_rows :: Rows where
  "null_rows =
     \<lparr>FieldDescriptions = [''a'', ''b''],
      rowItems = [Inr [VText ''x'', VNil], Inr [VText [], VInt 3] ],
      rowsErr = None, elapsed = ''2ms''\<rparr>"

definition names_rows :: "string list \<Rightarrow> Rows" where
  "names_rows ns =
     \<lparr>FieldDescriptions = [''name''], rowItems = map (\<lambda>n. Inr [VText n]) ns, rowsErr = None,
      elapsed = ''1ms''\<rparr>"

definition down_pool :: pool where
  "down_pool sql args = Inl (Error ''connection refused'')"

text \<open>
  A database with the schemas \<open>app\<close> (one table, \<open>orders\<close>) and \<open>staging\<close> (no table); it
  fails every other query.
\<close>

definition nav_pool :: pool where
  "nav_pool sql args =
     (if sql = schemataSQL then Inr (names_rows [''app'', ''staging''])
      else if sql = tablesSQL \<and> args = [''app''] then Inr (names_rows [''orders''])
      else if sql = tablesSQL then Inr (names_rows [])
      else Inl (Error ''unavailable''))"

section \<open>Matching is membership\<close>

lemma nullable_lang: "nullable r \<longleftrightarrow> [] \<in> lang r"
  by (induction r) (auto intro: star_nil)

lemma star_cons:
  "c # w \<in> star A \<longleftrightarrow> (\<exists>u v. w = u @ v \<and> c # u \<in> A \<and> v \<in> star A)"
proof
  assume "c # w \<in> star A"
  then show "\<exists>u v. w = u @ v \<and> c # u \<in> A \<and> v \<in> star A"
  proof (induction "c # w" rule: star.induct)
    case (star_app u v)
    show ?case
    proof (cases u)
      case Nil
      with star_app show ?thesis by simp
    next
      case (Cons a u')
      with star_app show ?thesis by auto
    qed
  qed
next
  assume "\<exists>u v. w = u @ v \<and> c # u \<in> A \<and> v \<in> star A"
  then obtain u v where "w = u @ v" "c # u \<in> A" "v \<in> star A" by blast
  then show "c # w \<in> star A" using star_app [of "c # u" A v] by simp
qed

lemma deriv_lang: "w \<in> lang (deriv c r) \<longleftrightarrow> c # w \<in> lang r"
proof (induction r arbitrary: w)
  case (RSeq r s)
  show ?case
    by (auto simp: RSeq nullable_lang Cons_eq_append_conv)
next
  case (RStar r)
  show ?case by (auto simp: RStar star_cons)
qed auto

lemma match_all_lang: "match_all r w \<longleftrightarrow> w \<in> lang r"
  by (induction w arbitrary: r) (auto simp: nullable_lang deriv_lang)

lemma match_prefix_lang: "match_prefix r w \<longleftrightarrow> (\<exists>u v. w = u @ v \<and> u \<in> lang r)"
  by (induction w arbitrary: r) (auto simp: nullable_lang deriv_lang Cons_eq_append_conv)

lemma match_somewhere_lang:
  "match_somewhere r w \<longleftrightarrow> (\<exists>p u v. w = p @ u @ v \<and> u \<in> lang r)"
proof (induction w)
  case Nil
  then show ?case by (simp add: nullable_lang)
next
  case (Cons c w)
  show ?case (is "?L \<longleftrightarrow> ?R")
  proof
    assume ?L
    then consider "match_prefix r (c # w)" | "match_somewhere r w" by auto
    then show ?R
    proof cases
      case 1
      then obtain u v where "c # w = u @ v" "u \<in> lang r" by (auto simp: match_prefix_lang)
      then have "c # w = [] @ u @ v \<and> u \<in> lang r" by simp
      then show ?thesis by blast
    next
      case 2
      then obtain p u v where "w = p @ u @ v" "u \<in> lang r" using Cons by blast
      then have "c # w = (c # p) @ u @ v \<and> u \<in> lang r" by simp
      then show ?thesis by blast
    qed
  next
    assume ?R
    then obtain p u v where *: "c # w = p @ u @ v" "u \<in> lang r" by blast
    show ?L
    proof (cases p)
      case Nil
      with * have "match_prefix r (c # w)" unfolding match_prefix_lang by auto
      then show ?thesis by simp
    next
      case (Cons a p')
      with * have "w = p' @ u @ v" by simp
      with * Cons.IH have "match_somewhere r w" using \<open>u \<in> lang r\<close> by blast
      then show ?thesis by simp
    qed
  qed
qed

lemma star_class: "star {[c] | c. P c} = {w. \<forall>x\<in>set w. P x}"
proof (rule set_eqI, rule iffI)
  fix w assume "w \<in> star {[c] | c. P c}"
  then have "\<forall>x\<in>set w. P x" by (induction rule: star.induct) auto
  then show "w \<in> {w. \<forall>x\<in>set w. P x}" by simp
next
  fix w assume "w \<in> {w. \<forall>x\<in>set w. P x}"
  then have "\<forall>x\<in>set w. P x" by simp
  then show "w \<in> star {[c] | c. P c}"
  proof (induction w)
    case Nil
    show ?case by (rule star_nil)
  next
    case (Cons a w)
    then have "[a] \<in> {[c] | c. P c}" "w \<in> star {[c] | c. P c}" by auto
    then have "[a] @ w \<in> star {[c] | c. P c}" by (rule star_app)
    then show ?case by simp
  qed
qed

lemma lang_class_seq:
  "w \<in> lang (RSeq (RClass neg items) r) \<longleftrightarrow>
     (\<exists>c v. w = c # v \<and> class_has neg items c \<and> v \<in> lang r)"
  (is "?L \<longleftrightarrow> ?R")
proof
  assume ?L
  then obtain u v where "w = u @ v" "u \<in> lang (RClass neg items)" "v \<in> lang r"
    by auto
  then show ?R by auto
next
  assume ?R
  then obtain c v where "w = [c] @ v" "[c] \<in> lang (RClass neg items)" "v \<in> lang r"
    by auto
  then show ?L unfolding lang.simps by blast
qed

lemma lang_star_class:
  "w \<in> lang (RStar (RClass neg items)) \<longleftrightarrow> (\<forall>x\<in>set w. class_has neg items x)"
  by (simp add: star_class)

lemma lang_star_class_seq:
  "w \<in> lang (RSeq (RStar (RClass neg items)) (RClass neg' items')) \<longleftrightarrow>
     (\<exists>ws c. w = ws @ [c] \<and> (\<forall>x\<in>set ws. class_has neg items x) \<and> class_has neg' items' c)"
  (is "?L \<longleftrightarrow> ?R")
proof
  assume ?L
  then obtain u v where "w = u @ v" "u \<in> lang (RStar (RClass neg items))"
    "v \<in> lang (RClass neg' items')"
    by auto
  then show ?R unfolding lang_star_class by auto
next
  assume ?R
  then obtain ws c where "w = ws @ [c]" "ws \<in> lang (RStar (RClass neg items))"
    "[c] \<in> lang (RClass neg' items')"
    unfolding lang_star_class by auto
  then show ?L unfolding lang.simps(5) by blast
qed

section \<open>Statement Guard\<close>

lemma class_semicolon: "class_has False [Single (CHR '';'')] c = (c = CHR '';'')"
  by (simp add: class_has_def)

lemma class_space: "class_has False [PerlSpace] c = perl_space c"
  by (simp add: class_has_def)

lemma class_not_space: "class_has True [PerlSpace] c = (\<not> perl_space c)"
  by (simp add: class_has_def)

lemma lang_multiStmtRe:
  "w \<in> lang multiStmtRe \<longleftrightarrow>
     (\<exists>ws c. w = CHR '';'' # ws @ [c] \<and> (\<forall>x\<in>set ws. perl_space x) \<and> \<not> perl_space c)"
  unfolding multiStmtRe_def lang_class_seq lang_star_class_seq class_semicolon class_space
    class_not_space
  by blast

lemma hasMultipleStatements_iff:
  "hasMultipleStatements q \<longleftrightarrow>
     (\<exists>pre ws c post. q = pre @ [CHR '';''] @ ws @ [c] @ post \<and>
        (\<forall>x\<in>set ws. perl_space x) \<and> \<not> perl_space c)"
  (is "?L \<longleftrightarrow> ?R")
proof
  assume ?L
  then obtain p u v where q: "q = p @ u @ v" and u: "u \<in> lang multiStmtRe"
    unfolding hasMultipleStatements_def match_somewhere_lang by blast
  from u obtain ws c where
    "u = CHR '';'' # ws @ [c]" "\<forall>x\<in>set ws. perl_space x" "\<not> perl_space c"
    unfolding lang_multiStmtRe by blast
  with q have
    "q = p @ [CHR '';''] @ ws @ [c] @ v \<and> (\<forall>x\<in>set ws. perl_space x) \<and> \<not> perl_space c"
    by simp
  then show ?R by blast
next
  assume ?R
  then obtain pre ws c post where q: "q = pre @ [CHR '';''] @ ws @ [c] @ post"
    and ws: "\<forall>x\<in>set ws. perl_space x" and c: "\<not> perl_space c" by blast
  from ws c have "CHR '';'' # ws @ [c] \<in> lang multiStmtRe"
    unfolding lang_multiStmtRe by blast
  moreover from q have "q = pre @ (CHR '';'' # ws @ [c]) @ post" by simp
  ultimately show ?L
    unfolding hasMultipleStatements_def match_somewhere_lang by blast
qed

lemma trailing_semicolon_single:
  assumes "CHR '';'' \<notin> set body" and "\<forall>x\<in>set ws. perl_space x"
  shows "\<not> hasMultipleStatements (body @ [CHR '';''] @ ws)"
proof
  assume "hasMultipleStatements (body @ [CHR '';''] @ ws)"
  then obtain pre ws' c post where
    eq: "body @ [CHR '';''] @ ws = pre @ [CHR '';''] @ ws' @ [c] @ post"
    and c: "\<not> perl_space c"
    unfolding hasMultipleStatements_iff by blast
  have "\<not> perl_space (CHR '';'')" by (simp add: perl_space_def)
  with assms(2) have ws: "CHR '';'' \<notin> set ws" by blast
  from eq have "body @ CHR '';'' # ws = pre @ CHR '';'' # (ws' @ c # post)" by simp
  then have "ws = ws' @ c # post"
    using append_Cons_eq_iff [OF assms(1) ws] by blast
  then have "c \<in> set ws" by simp
  with assms(2) c show False by blast
qed

text \<open>
  Claim C4. The Statement Guard classifies a query text as multi-statement exactly when
  the text contains a semicolon that is followed, after any number of white space
  characters (the class \<open>\s\<close>), by a character that is not white space. A text whose only
  semicolon is followed by nothing or by white space only is classified single-statement.
\<close>

theorem statement_guard_classification:
  "(hasMultipleStatements q \<longleftrightarrow>
      (\<exists>pre ws c post. q = pre @ [CHR '';''] @ ws @ [c] @ post \<and>
         (\<forall>x\<in>set ws. perl_space x) \<and> \<not> perl_space c)) \<and>
   (CHR '';'' \<notin> set body \<and> (\<forall>x\<in>set trail. perl_space x) \<longrightarrow>
      \<not> hasMultipleStatements (body @ [CHR '';''] @ trail))"
  using hasMultipleStatements_iff [of q] trailing_semicolon_single [of body trail] by blast

theorem statement_guard_classification_witness:
  "hasMultipleStatements ''SELECT 1; SELECT 2'' \<and> \<not> hasMultipleStatements ''SELECT 1; ''"
proof -
  have "''SELECT 1; SELECT 2'' = ''SELECT 1'' @ [CHR '';''] @ '' '' @ [CHR ''S''] @ ''ELECT 2'' \<and>
        (\<forall>x\<in>set '' ''. perl_space x) \<and> \<not> perl_space (CHR ''S'')"
    by (simp add: perl_space_def)
  then have multi:
    "\<exists>pre ws c post. ''SELECT 1; SELECT 2'' = pre @ [CHR '';''] @ ws @ [c] @ post \<and>
       (\<forall>x\<in>set ws. perl_space x) \<and> \<not> perl_space c"
    by blast
  have single: "CHR '';'' \<notin> set ''SELECT 1'' \<and> (\<forall>x\<in>set '' ''. perl_space x)"
    by (simp add: perl_space_def)
  have "''SELECT 1; '' = ''SELECT 1'' @ [CHR '';''] @ '' ''" by simp
  with multi single
    statement_guard_classification [of "''SELECT 1; SELECT 2''" "''SELECT 1''" "'' ''"]
  show ?thesis by metis
qed

section \<open>Identifier Quoter\<close>

lemma class_first:
  "class_has False [Range (CHR ''a'') (CHR ''z''), Single (CHR ''_'')] c = ident_first c"
  by (simp add: class_has_def ident_first_def)

lemma class_rest:
  "class_has False
     [Range (CHR ''a'') (CHR ''z''), Range (CHR ''0'') (CHR ''9''), Single (CHR ''_'')] c =
   ident_rest c"
  by (simp add: class_has_def ident_rest_def)

lemma match_identRe: "match_all identRe name \<longleftrightarrow> plain_ident name"
  unfolding match_all_lang identRe_def lang_class_seq lang_star_class class_first class_rest
  by (cases name) (simp_all add: plain_ident_def list_all_iff)

lemma ReplaceAll_single:
  "ReplaceAll s [a] new = concat (map (\<lambda>c. if c = a then new else [c]) s)"
  by (induction s) auto

text \<open>
  Claim C6. An identifier that matches \<^verbatim>\<open>^[a-z_][a-z0-9_]*$\<close> (a lowercase letter or an
  underscore, then lowercase letters, digits and underscores) is returned unchanged. Every
  other identifier that is not empty is returned between two double quotes, with each
  double quote of the identifier doubled. The empty identifier is returned unchanged.
\<close>

theorem pgIdent_quoting:
  "(match_all identRe name \<longleftrightarrow> plain_ident name) \<and>
   (plain_ident name \<longrightarrow> pgIdent name = name) \<and>
   (name \<noteq> [] \<and> \<not> plain_ident name \<longrightarrow>
      pgIdent name =
        [dquote] @ concat (map (\<lambda>c. if c = dquote then [dquote, dquote] else [c]) name) @ [dquote] \<and>
      hd (pgIdent name) = dquote \<and> last (pgIdent name) = dquote) \<and>
   pgIdent [] = []"
  by (simp add: pgIdent_def match_identRe ReplaceAll_single)

theorem pgIdent_quoting_witness:
  "plain_ident ''order_items2'' \<and> pgIdent ''order_items2'' = ''order_items2'' \<and>
   \<not> plain_ident [CHR ''a'', dquote, CHR ''B''] \<and>
   pgIdent [CHR ''a'', dquote, CHR ''B''] = [dquote, CHR ''a'', dquote, dquote, CHR ''B'', dquote]"
proof -
  have p: "plain_ident ''order_items2''"
    by (simp add: plain_ident_def ident_first_def ident_rest_def)
  have n: "[CHR ''a'', dquote, CHR ''B''] \<noteq> [] \<and> \<not> plain_ident [CHR ''a'', dquote, CHR ''B'']"
    by (simp add: plain_ident_def ident_first_def ident_rest_def dquote_def)
  from p n pgIdent_quoting [of "''order_items2''"]
    pgIdent_quoting [of "[CHR ''a'', dquote, CHR ''B'']"]
  show ?thesis by (simp add: dquote_def)
qed

section \<open>Fields that an operation leaves alone\<close>

lemma toast_fields [simp]:
  "statusBar (toast msg s) = ''[yellow]'' @ msg"
  "sleepers (toast msg s) = sleepers s @ [now s + 3000]"
  "now (toast msg s) = now s"
  "queries (toast msg s) = queries s"
  "schemaList (toast msg s) = schemaList s"
  "tableList (toast msg s) = tableList s"
  "columnTable (toast msg s) = columnTable s"
  "resultTable (toast msg s) = resultTable s"
  "previewLimit (toast msg s) = previewLimit s"
  "currentSchema (toast msg s) = currentSchema s"
  "currentTable (toast msg s) = currentTable s"
  by (simp_all add: toast_def)

lemma getTable_toast [simp]: "getTable tbl (toast msg s) = getTable tbl s"
  by (cases tbl) simp_all

lemma putTable_fields [simp]:
  "statusBar (putTable tbl t s) = statusBar s"
  "sleepers (putTable tbl t s) = sleepers s"
  "now (putTable tbl t s) = now s"
  "queries (putTable tbl t s) = queries s"
  "schemaList (putTable tbl t s) = schemaList s"
  "tableList (putTable tbl t s) = tableList s"
  "previewLimit (putTable tbl t s) = previewLimit s"
  "currentSchema (putTable tbl t s) = currentSchema s"
  "currentTable (putTable tbl t s) = currentTable s"
  by (cases tbl; simp)+

lemma getTable_putTable [simp]: "getTable tbl (putTable tbl t s) = t"
  by (cases tbl) simp_all

lemma runQueryInto_queries: "queries (runQueryInto pool q tbl s) = queries s @ [(q, [])]"
  by (simp add: runQueryInto_def Query_def Let_def split: sum.splits prod.splits option.splits)

lemma runQueryInto_selection:
  "schemaList (runQueryInto pool q tbl s) = schemaList s"
  "tableList (runQueryInto pool q tbl s) = tableList s"
  "currentSchema (runQueryInto pool q tbl s) = currentSchema s"
  "currentTable (runQueryInto pool q tbl s) = currentTable s"
  "previewLimit (runQueryInto pool q tbl s) = previewLimit s"
  by (simp_all add: runQueryInto_def Query_def Let_def
      split: sum.splits prod.splits option.splits)

lemma loadColumns_selection:
  "schemaList (loadColumns pool schema table s) = schemaList s"
  "tableList (loadColumns pool schema table s) = tableList s"
  "currentSchema (loadColumns pool schema table s) = currentSchema s"
  "currentTable (loadColumns pool schema table s) = currentTable s"
  "previewLimit (loadColumns pool schema table s) = previewLimit s"
  by (simp_all add: loadColumns_def Query_def Let_def
      split: sum.splits prod.splits option.splits)

lemma previewTable_selection:
  "schemaList (previewTable pool schema table s) = schemaList s"
  "tableList (previewTable pool schema table s) = tableList s"
  "currentSchema (previewTable pool schema table s) = currentSchema s"
  "currentTable (previewTable pool schema table s) = currentTable s"
  by (simp_all add: previewTable_def Let_def runQueryInto_selection)

lemma fold_updateStatus:
  "fold (\<lambda>w. updateStatus m) ws s = (if ws = [] then s else s\<lparr>statusBar := m\<rparr>)"
  by (induction ws arbitrary: s) (auto simp: updateStatus_def)

lemma elapse_selection:
  "tableList (elapse d s) = tableList s" "currentTable (elapse d s) = currentTable s"
  by (simp_all add: elapse_def Let_def fold_updateStatus)

lemma runAdhocQuery_selection:
  "tableList (runAdhocQuery pool q s) = tableList s"
  "currentTable (runAdhocQuery pool q s) = currentTable s"
  by (simp_all add: runAdhocQuery_def Let_def runQueryInto_selection)

lemma selectTable_selection:
  "tableList (selectTable pool name s) = tableList s"
  "currentTable (selectTable pool name s) = name"
  by (simp_all add: selectTable_def Let_def previewTable_selection loadColumns_selection)

section \<open>Query Executor and Result Materializer\<close>

lemma fold_SetCell:
  "fold (\<lambda>(i, v). SetCell row i (f i v)) (enumerate k cols) t (r, c) =
     (if r = row \<and> k \<le> c \<and> c < k + length cols then Some (f c (cols ! (c - k)))
      else t (r, c))"
proof (induction cols arbitrary: k t)
  case Nil
  show ?case by auto
next
  case (Cons x xs)
  have "fold (\<lambda>(i, v). SetCell row i (f i v)) (enumerate k (x # xs)) t (r, c) =
        fold (\<lambda>(i, v). SetCell row i (f i v)) (enumerate (Suc k) xs)
          (SetCell row k (f k x) t) (r, c)"
    by simp
  also have "\<dots> =
        (if r = row \<and> Suc k \<le> c \<and> c < Suc k + length xs then Some (f c (xs ! (c - Suc k)))
         else SetCell row k (f k x) t (r, c))"
    by (rule Cons)
  also have "\<dots> =
        (if r = row \<and> k \<le> c \<and> c < k + length (x # xs) then Some (f c ((x # xs) ! (c - k)))
         else t (r, c))"
    by (auto simp: SetCell_def nth_Cons' Suc_diff_le)
  finally show ?case .
qed

lemma setRow_apply:
  "setRow t row cols (r, c) =
     (if r = row \<and> c < length cols then Some (cellText c (cols ! c)) else t (r, c))"
  by (simp add: setRow_def fold_SetCell)

lemma setHeader_Clear: "setHeader TableClear headers = headerShown headers"
  by (auto simp: setHeader_def headerShown_def fold_SetCell TableClear_def fun_eq_iff)

lemma rowsShown_Nil: "rowsShown row [] t = t"
  by (auto simp: rowsShown_def fun_eq_iff)

lemma rowsShown_Cons:
  "rowsShown (Suc row) good (setRow t row (map stringify vals)) = rowsShown row (vals # good) t"
  by (auto simp: rowsShown_def setRow_apply fun_eq_iff nth_Cons' Suc_diff_le)

lemma rowLoop_result:
  "rowLoop items row t =
     (rowsShown row (decoded items) t, row + length (decoded items), first_error items)"
proof (induction items row t rule: rowLoop.induct)
  case (1 row t)
  show ?case by (simp add: rowsShown_Nil)
next
  case (2 err rest row t)
  show ?case by (simp add: rowsShown_Nil)
next
  case (3 vals rest row t)
  then show ?case by (simp add: rowsShown_Cons)
qed

lemma runQueryInto_Query_error:
  "pool q [] = Inl e \<Longrightarrow>
   runQueryInto pool q tbl s =
     toast (''query error: '' @ errText e) (s\<lparr>queries := queries s @ [(q, [])]\<rparr>)"
  by (simp add: runQueryInto_def Query_def)

lemma runQueryInto_rows:
  "pool q [] = Inr rows \<Longrightarrow>
   runQueryInto pool q tbl s =
     toast
       (case first_error (rowItems rows) of
          Some e \<Rightarrow> ''row error: '' @ errText e
        | None \<Rightarrow>
            (case rowsErr rows of
               Some e \<Rightarrow> ''rows err: '' @ errText e
             | None \<Rightarrow>
                 fmt_d (int (length (decoded (rowItems rows)))) @ '' rows in '' @ elapsed rows))
       (putTable tbl (shown (FieldDescriptions rows) (decoded (rowItems rows)))
          (s\<lparr>queries := queries s @ [(q, [])]\<rparr>))"
  by (cases tbl)
     (simp_all add: runQueryInto_def Query_def Let_def rowLoop_result setHeader_Clear shown_def
        split: option.splits)

text \<open>
  Claim C1, as the code has it. A query execution that fails posts a failure notification
  and no success notification. When the failure is the error that \<open>Query\<close> returns
  (connection error, SQL error at submission), both tables are left unchanged. When the
  failure comes while the rows are read (a row that fails to decode, or the error that
  \<open>Err\<close> reports after the last row: deadline exceeded, cancellation, SQL error during
  execution), the target table has been cleared and holds the header of the failed query
  and the rows read before the failure.
\<close>

theorem failed_query_outcome:
  "(pool q [] = Inl e \<longrightarrow>
      statusBar (runQueryInto pool q tbl s) = ''[yellow]query error: '' @ errText e \<and>
      columnTable (runQueryInto pool q tbl s) = columnTable s \<and>
      resultTable (runQueryInto pool q tbl s) = resultTable s) \<and>
   (pool q [] = Inr rows \<and> first_error (rowItems rows) = Some e \<longrightarrow>
      statusBar (runQueryInto pool q tbl s) = ''[yellow]row error: '' @ errText e \<and>
      getTable tbl (runQueryInto pool q tbl s) =
        shown (FieldDescriptions rows) (decoded (rowItems rows))) \<and>
   (pool q [] = Inr rows \<and> first_error (rowItems rows) = None \<and> rowsErr rows = Some e \<longrightarrow>
      statusBar (runQueryInto pool q tbl s) = ''[yellow]rows err: '' @ errText e \<and>
      getTable tbl (runQueryInto pool q tbl s) =
        shown (FieldDescriptions rows) (decoded (rowItems rows)))"
proof (intro conjI impI)
  assume "pool q [] = Inl e"
  then have "runQueryInto pool q tbl s =
      toast (''query error: '' @ errText e) (s\<lparr>queries := queries s @ [(q, [])]\<rparr>)"
    by (rule runQueryInto_Query_error)
  then show "statusBar (runQueryInto pool q tbl s) = ''[yellow]query error: '' @ errText e"
    and "columnTable (runQueryInto pool q tbl s) = columnTable s"
    and "resultTable (runQueryInto pool q tbl s) = resultTable s"
    by simp_all
next
  assume "pool q [] = Inr rows \<and> first_error (rowItems rows) = Some e"
  then show "statusBar (runQueryInto pool q tbl s) = ''[yellow]row error: '' @ errText e"
    and "getTable tbl (runQueryInto pool q tbl s) =
      shown (FieldDescriptions rows) (decoded (rowItems rows))"
    by (simp_all add: runQueryInto_rows)
next
  assume "pool q [] = Inr rows \<and> first_error (rowItems rows) = None \<and> rowsErr rows = Some e"
  then show "statusBar (runQueryInto pool q tbl s) = ''[yellow]rows err: '' @ errText e"
    and "getTable tbl (runQueryInto pool q tbl s) =
      shown (FieldDescriptions rows) (decoded (rowItems rows))"
    by (simp_all add: runQueryInto_rows)
qed

theorem failed_query_outcome_witness:
  "statusBar (runQueryInto down_pool ''SELECT 1'' ResultTableRef (initState 100)) =
     ''[yellow]query error: connection refused'' \<and>
   resultTable (runQueryInto down_pool ''SELECT 1'' ResultTableRef (initState 100)) =
     resultTable (initState 100) \<and>
   statusBar
     (runQueryInto (\<lambda>sql args. Inr broken_rows) ''SELECT n FROM u'' ResultTableRef
        (initState 100)) =
     ''[yellow]row error: decode'' \<and>
   getTable ResultTableRef
     (runQueryInto (\<lambda>sql args. Inr broken_rows) ''SELECT n FROM u'' ResultTableRef
        (initState 100)) =
     shown [''n''] [ [VInt 7] ] \<and>
   statusBar
     (runQueryInto (\<lambda>sql args. Inr timeout_rows) ''SELECT n FROM u'' ResultTableRef
        (initState 100)) =
     ''[yellow]rows err: context deadline exceeded'' \<and>
   getTable ResultTableRef
     (runQueryInto (\<lambda>sql args. Inr timeout_rows) ''SELECT n FROM u'' ResultTableRef
        (initState 100)) =
     shown [''n''] [ [VInt 7] ]"
proof -
  have 1: "down_pool ''SELECT 1'' [] = Inl (Error ''connection refused'')"
    by (simp add: down_pool_def)
  have 2: "first_error (rowItems broken_rows) = Some (Error ''decode'')"
    by (simp add: broken_rows_def)
  have 3: "first_error (rowItems timeout_rows) = None \<and>
      rowsErr timeout_rows = Some (Error ''context deadline exceeded'')"
    by (simp add: timeout_rows_def)
  from 1 failed_query_outcome [of down_pool "''SELECT 1''" "Error ''connection refused''"
      ResultTableRef "initState 100"]
  have a: "statusBar (runQueryInto down_pool ''SELECT 1'' ResultTableRef (initState 100)) =
     ''[yellow]query error: connection refused'' \<and>
   resultTable (runQueryInto down_pool ''SELECT 1'' ResultTableRef (initState 100)) =
     resultTable (initState 100)"
    by simp
  from 2 failed_query_outcome [of "\<lambda>sql args. Inr broken_rows" "''SELECT n FROM u''"
      "Error ''decode''" ResultTableRef "initState 100" broken_rows]
  have b: "statusBar
     (runQueryInto (\<lambda>sql args. Inr broken_rows) ''SELECT n FROM u'' ResultTableRef
        (initState 100)) =
     ''[yellow]row error: decode'' \<and>
   getTable ResultTableRef
     (runQueryInto (\<lambda>sql args. Inr broken_rows) ''SELECT n FROM u'' ResultTableRef
        (initState 100)) =
     shown [''n''] [ [VInt 7] ]"
    by (simp add: broken_rows_def)
  from 3 failed_query_outcome [of "\<lambda>sql args. Inr timeout_rows" "''SELECT n FROM u''"
      "Error ''context deadline exceeded''" ResultTableRef "initState 100" timeout_rows]
  have c: "statusBar
     (runQueryInto (\<lambda>sql args. Inr timeout_rows) ''SELECT n FROM u'' ResultTableRef
        (initState 100)) =
     ''[yellow]rows err: context deadline exceeded'' \<and>
   getTable ResultTableRef
     (runQueryInto (\<lambda>sql args. Inr timeout_rows) ''SELECT n FROM u'' ResultTableRef
        (initState 100)) =
     shown [''n''] [ [VInt 7] ]"
    by (simp add: timeout_rows_def)
  from a b c show ?thesis by blast
qed

text \<open>
  Claim C1 as it is written fails. A first query shows the rows 1 and 2. A second query
  delivers the row 7 and then a row that fails to decode: the notification is the failure,
  but the table now shows the row 7 of the failed query and no longer the second row of
  the result shown before.
\<close>

theorem failed_query_partial_rows:
  "statusBar
     (runQueryInto (\<lambda>sql args. Inr broken_rows) ''SELECT n FROM u'' ResultTableRef
        (runQueryInto (\<lambda>sql args. Inr first_rows) ''SELECT id FROM t'' ResultTableRef
           (initState 100))) =
     ''[yellow]row error: decode'' \<and>
   resultTable
     (runQueryInto (\<lambda>sql args. Inr first_rows) ''SELECT id FROM t'' ResultTableRef
        (initState 100)) (2, 0) =
     Some ''2'' \<and>
   resultTable
     (runQueryInto (\<lambda>sql args. Inr broken_rows) ''SELECT n FROM u'' ResultTableRef
        (runQueryInto (\<lambda>sql args. Inr first_rows) ''SELECT id FROM t'' ResultTableRef
           (initState 100))) (2, 0) =
     None \<and>
   resultTable
     (runQueryInto (\<lambda>sql args. Inr broken_rows) ''SELECT n FROM u'' ResultTableRef
        (runQueryInto (\<lambda>sql args. Inr first_rows) ''SELECT id FROM t'' ResultTableRef
           (initState 100))) (1, 0) =
     Some ''7'' \<and>
   resultTable
     (runQueryInto (\<lambda>sql args. Inr broken_rows) ''SELECT n FROM u'' ResultTableRef
        (runQueryInto (\<lambda>sql args. Inr first_rows) ''SELECT id FROM t'' ResultTableRef
           (initState 100))) \<noteq>
   resultTable
     (runQueryInto (\<lambda>sql args. Inr first_rows) ''SELECT id FROM t'' ResultTableRef
        (initState 100))"
proof -
  let ?s1 =
    "runQueryInto (\<lambda>sql args. Inr first_rows) ''SELECT id FROM t'' ResultTableRef
       (initState 100)"
  let ?s2 = "runQueryInto (\<lambda>sql args. Inr broken_rows) ''SELECT n FROM u'' ResultTableRef ?s1"
  have s1: "?s1 = toast ''2 rows in 1ms''
      (putTable ResultTableRef (shown [''id''] [ [VInt 1], [VInt 2] ])
         (initState 100\<lparr>queries := queries (initState 100) @ [(''SELECT id FROM t'', [])]\<rparr>))"
    by (subst runQueryInto_rows [where rows = first_rows])
       (simp_all add: first_rows_def fmt_d_def digits.simps)
  have s2: "?s2 = toast ''row error: decode''
      (putTable ResultTableRef (shown [''n''] [ [VInt 7] ])
         (?s1\<lparr>queries := queries ?s1 @ [(''SELECT n FROM u'', [])]\<rparr>))"
    by (subst runQueryInto_rows [where rows = broken_rows]) (simp_all add: broken_rows_def)
  have a: "statusBar ?s2 = ''[yellow]row error: decode''"
    by (subst s2) simp
  have b: "resultTable ?s1 (2, 0) = Some ''2''"
    by (subst s1)
      (simp add: shown_def rowsShown_def headerShown_def cellText_def stringify_def fmt_d_def
        digits.simps)
  have c: "resultTable ?s2 (2, 0) = None"
    by (subst s2) (simp add: shown_def rowsShown_def headerShown_def)
  have d: "resultTable ?s2 (1, 0) = Some ''7''"
    by (subst s2)
      (simp add: shown_def rowsShown_def headerShown_def cellText_def stringify_def fmt_d_def
        digits.simps)
  from b c have "resultTable ?s2 \<noteq> resultTable ?s1" by auto
  with a b c d show ?thesis by blast
qed

text \<open>
  Claim C8. In every row that is materialized, a value that is \<open>nil\<close> (NULL) gives the cell
  text \<open>NULL\<close> and every other value the text that \<open>fmt.Sprint\<close> prints for it; the cell of
  NULL differs from the cell of the empty string. (In the table a cell after the first
  column carries the separator \<open>" | "\<close> before this text.)
\<close>

theorem null_cell_rendering:
  "pool q [] = Inr rows \<and> r < length (decoded (rowItems rows)) \<and>
   c < length (decoded (rowItems rows) ! r) \<longrightarrow>
     (decoded (rowItems rows) ! r ! c = VNil \<longrightarrow>
        getTable tbl (runQueryInto pool q tbl s) (r + 1, c) = Some (cellText c ''NULL'')) \<and>
     (decoded (rowItems rows) ! r ! c \<noteq> VNil \<longrightarrow>
        getTable tbl (runQueryInto pool q tbl s) (r + 1, c) =
          Some (cellText c (Sprint (decoded (rowItems rows) ! r ! c)))) \<and>
     cellText c ''NULL'' \<noteq> cellText c (Sprint (VText [])) \<and>
     stringify VNil = ''NULL'' \<and> stringify VNil \<noteq> stringify (VText [])"
proof (intro impI, elim conjE)
  assume q: "pool q [] = Inr rows"
    and r: "r < length (decoded (rowItems rows))"
    and c: "c < length (decoded (rowItems rows) ! r)"
  have cell: "getTable tbl (runQueryInto pool q tbl s) (r + 1, c) =
      Some (cellText c (stringify (decoded (rowItems rows) ! r ! c)))"
    using r c
    by (simp add: runQueryInto_rows [where pool = pool and q = q, OF q] shown_def rowsShown_def)
  have isnull: "decoded (rowItems rows) ! r ! c = VNil \<Longrightarrow>
      getTable tbl (runQueryInto pool q tbl s) (r + 1, c) = Some (cellText c ''NULL'')"
    unfolding cell by (simp add: stringify_def)
  have nonnull: "decoded (rowItems rows) ! r ! c \<noteq> VNil \<Longrightarrow>
      getTable tbl (runQueryInto pool q tbl s) (r + 1, c) =
        Some (cellText c (Sprint (decoded (rowItems rows) ! r ! c)))"
    unfolding cell by (simp add: stringify_def)
  have differ: "cellText c ''NULL'' \<noteq> cellText c (Sprint (VText []))"
    by (simp add: cellText_def)
  have strs: "stringify VNil = ''NULL'' \<and> stringify VNil \<noteq> stringify (VText [])"
    by (simp add: stringify_def)
  show "(decoded (rowItems rows) ! r ! c = VNil \<longrightarrow>
        getTable tbl (runQueryInto pool q tbl s) (r + 1, c) = Some (cellText c ''NULL'')) \<and>
     (decoded (rowItems rows) ! r ! c \<noteq> VNil \<longrightarrow>
        getTable tbl (runQueryInto pool q tbl s) (r + 1, c) =
          Some (cellText c (Sprint (decoded (rowItems rows) ! r ! c)))) \<and>
     cellText c ''NULL'' \<noteq> cellText c (Sprint (VText [])) \<and>
     stringify VNil = ''NULL'' \<and> stringify VNil \<noteq> stringify (VText [])"
    using isnull nonnull differ strs by blast
qed

theorem null_cell_rendering_witness:
  "getTable ResultTableRef
     (runQueryInto (\<lambda>sql args. Inr null_rows) ''SELECT a, b FROM t'' ResultTableRef
        (initState 100))
     (1, 1) = Some '' | NULL'' \<and>
   getTable ResultTableRef
     (runQueryInto (\<lambda>sql args. Inr null_rows) ''SELECT a, b FROM t'' ResultTableRef
        (initState 100))
     (2, 0) = Some []"
proof -
  have d: "decoded (rowItems null_rows) = [ [VText ''x'', VNil], [VText [], VInt 3] ]"
    by (simp add: null_rows_def)
  from null_cell_rendering [of "\<lambda>sql args. Inr null_rows" "''SELECT a, b FROM t''" null_rows
      0 1 ResultTableRef "initState 100"]
  have a: "getTable ResultTableRef
     (runQueryInto (\<lambda>sql args. Inr null_rows) ''SELECT a, b FROM t'' ResultTableRef
        (initState 100))
     (1, 1) = Some '' | NULL''"
    by (simp add: d cellText_def)
  from null_cell_rendering [of "\<lambda>sql args. Inr null_rows" "''SELECT a, b FROM t''" null_rows
      1 0 ResultTableRef "initState 100"]
  have b: "getTable ResultTableRef
     (runQueryInto (\<lambda>sql args. Inr null_rows) ''SELECT a, b FROM t'' ResultTableRef
        (initState 100))
     (2, 0) = Some []"
    by (simp add: d cellText_def numeral_2_eq_2)
  from a b show ?thesis by blast
qed

section \<open>Preview and ad-hoc queries\<close>

lemma previewTable_queries:
  "queries (previewTable pool schema table s) =
     queries s @
       [(''SELECT * FROM '' @ pgIdent schema @ ''.'' @ pgIdent table @ '' LIMIT '' @
           fmt_d (previewLimit s), [])]"
  by (simp add: previewTable_def Let_def runQueryInto_queries)

text \<open>
  Claim C7. For every schema name, table name and preview limit \<open>N\<close>, the preview sends
  exactly one query, with the text \<open>SELECT * FROM <schema>.<table> LIMIT <N>\<close> in which the
  two names are quoted by \<open>pgIdent\<close> and \<open>N\<close> is printed in decimal; for the schema
  \<open>public\<close>, the table \<open>Orders\<close> and the limit 100 the text is
  \<open>SELECT * FROM public."Orders" LIMIT 100\<close>.
\<close>

theorem preview_query_text:
  "queries (previewTable pool schema table s) =
     queries s @
       [(''SELECT * FROM '' @ pgIdent schema @ ''.'' @ pgIdent table @ '' LIMIT '' @
           fmt_d (previewLimit s), [])] \<and>
   queries (previewTable pool ''public'' ''Orders'' (s\<lparr>previewLimit := 100\<rparr>)) =
     queries s @
       [(''SELECT * FROM public.'' @ [dquote] @ ''Orders'' @ [dquote] @ '' LIMIT 100'', [])]"
proof -
  have 1: "pgIdent ''public'' = ''public''"
    by (simp add: pgIdent_def identRe_def class_has_def)
  have 2: "pgIdent ''Orders'' = [dquote] @ ''Orders'' @ [dquote]"
    by (simp add: pgIdent_def identRe_def class_has_def dquote_def)
  have 3: "fmt_d 100 = ''100''"
    by (simp add: fmt_d_def digits.simps)
  show ?thesis
    by (simp add: previewTable_queries 1 2 3)
qed

theorem preview_query_text_witness:
  "queries (previewTable down_pool ''public'' ''Orders'' (initState 100)) =
     [(''SELECT * FROM public.'' @ [dquote] @ ''Orders'' @ [dquote] @ '' LIMIT 100'', [])]"
  using preview_query_text [of down_pool "''public''" "''Orders''" "initState 100",
      THEN conjunct2]
  by (simp add: initState_def)






lemma adhoc_empty: "TrimSpace q = [] \<Longrightarrow> runAdhocQuery pool q s = s"
  by (simp add: runAdhocQuery_def)

lemma TrimLeft_ascii: "\<forall>c\<in>set q. ascii_space c \<Longrightarrow> TrimLeft q = []"
proof (induction q)
  case Nil
  show ?case by (simp add: TrimLeft.simps space_len_def)
next
  case (Cons a q)
  then have "space_len (a # q) = Some 1" by (simp add: space_len_def ascii_space_def)
  with Cons show ?case by (subst TrimLeft.simps) simp
qed

lemma TrimSpace_ascii: "\<forall>c\<in>set q. ascii_space c \<Longrightarrow> TrimSpace q = []"
  by (simp add: TrimSpace_def TrimLeft_ascii TrimBack.simps space_len_back_def)

text \<open>
  Claim C10. An ad-hoc input that is empty after trimming (the empty input, or white
  space only) leaves the whole state as it is: no query is sent, no notification is
  posted, and the tables and the selection are unchanged. An input of ASCII white space
  only is such an input.
\<close>

theorem blank_adhoc_noop:
  "(TrimSpace q = [] \<longrightarrow> runAdhocQuery pool q s = s) \<and>
   ((\<forall>c\<in>set q. ascii_space c) \<longrightarrow> TrimSpace q = [])"
  by (simp add: adhoc_empty TrimSpace_ascii)

theorem blank_adhoc_noop_witness:
  "TrimSpace [CHR 0x20, CHR 0x09, CHR 0x0A] = [] \<and>
   runAdhocQuery (\<lambda>sql args. Inr first_rows) [CHR 0x20, CHR 0x09, CHR 0x0A] (initState 100) =
     initState 100 \<and>
   runAdhocQuery (\<lambda>sql args. Inr first_rows) [] (initState 100) = initState 100"
proof -
  have a: "\<forall>c\<in>set [CHR 0x20, CHR 0x09, CHR 0x0A]. ascii_space c"
    by (simp add: ascii_space_def)
  have b: "\<forall>c\<in>set []. ascii_space c" by simp
  from a b
    blank_adhoc_noop [of "[CHR 0x20, CHR 0x09, CHR 0x0A]" "\<lambda>sql args. Inr first_rows"
      "initState 100"]
    blank_adhoc_noop [of "[]" "\<lambda>sql args. Inr first_rows" "initState 100"]
  show ?thesis by blast
qed

section \<open>Notification Coordinator\<close>

lemma elapse_fields:
  "now (elapse d s) = now s + d"
  "sleepers (elapse d s) = filter (\<lambda>w. now s + d < w) (sleepers s)"
  "statusBar (elapse d s) =
     (if filter (\<lambda>w. w \<le> now s + d) (sleepers s) = [] then statusBar s else idleStatus)"
  by (simp_all add: elapse_def Let_def fold_updateStatus)

text \<open>
  Claim C2, as the code has it. When a second notification is posted \<open>d\<close> milliseconds
  after a first one, with \<open>0 < d < 3000\<close>, the second notification is shown at once; three
  seconds after the first notification its revert runs and sets the status bar to the
  idle text, while the revert of the second notification is still pending.
\<close>

theorem stale_revert_fires:
  "0 < d \<and> d < 3000 \<longrightarrow>
     statusBar (toast m2 (elapse d (toast m1 s))) = ''[yellow]'' @ m2 \<and>
     now s + 3000 \<in> set (sleepers (toast m2 (elapse d (toast m1 s)))) \<and>
     now (elapse (3000 - d) (toast m2 (elapse d (toast m1 s)))) = now s + 3000 \<and>
     statusBar (elapse (3000 - d) (toast m2 (elapse d (toast m1 s)))) = idleStatus \<and>
     now s + d + 3000 \<in> set (sleepers (elapse (3000 - d) (toast m2 (elapse d (toast m1 s)))))"
proof (intro impI, elim conjE)
  assume d: "0 < d" "d < 3000"
  define s2 where "s2 = toast m2 (elapse d (toast m1 s))"
  have n2: "now s2 = now s + d"
    by (simp add: s2_def elapse_fields)
  have first: "now s + 3000 \<in> set (sleepers s2)"
    using d by (simp add: s2_def elapse_fields)
  have second: "now s + d + 3000 \<in> set (sleepers s2)"
    by (simp add: s2_def elapse_fields)
  have shown2: "statusBar s2 = ''[yellow]'' @ m2"
    by (simp add: s2_def)
  have n3: "now (elapse (3000 - d) s2) = now s + 3000"
    using d by (simp add: elapse_fields(1) n2)
  from first d have "now s + 3000 \<in> set (filter (\<lambda>w. w \<le> now s2 + (3000 - d)) (sleepers s2))"
    by (simp add: n2)
  then have "filter (\<lambda>w. w \<le> now s2 + (3000 - d)) (sleepers s2) \<noteq> []"
    by (metis empty_iff empty_set)
  then have idle: "statusBar (elapse (3000 - d) s2) = idleStatus"
    by (simp add: elapse_fields(3))
  from second d have pending: "now s + d + 3000 \<in> set (sleepers (elapse (3000 - d) s2))"
    by (simp add: elapse_fields(2) n2)
  from shown2 first n3 idle pending
  show "statusBar (toast m2 (elapse d (toast m1 s))) = ''[yellow]'' @ m2 \<and>
     now s + 3000 \<in> set (sleepers (toast m2 (elapse d (toast m1 s)))) \<and>
     now (elapse (3000 - d) (toast m2 (elapse d (toast m1 s)))) = now s + 3000 \<and>
     statusBar (elapse (3000 - d) (toast m2 (elapse d (toast m1 s)))) = idleStatus \<and>
     now s + d + 3000 \<in> set (sleepers (elapse (3000 - d) (toast m2 (elapse d (toast m1 s)))))"
    unfolding s2_def by blast
qed

theorem stale_revert_fires_witness:
  "statusBar (elapse 2000 (toast ''second'' (elapse 1000 (toast ''first'' (initState 100))))) =
     idleStatus \<and>
   4000 \<in> set (sleepers (elapse 2000 (toast ''second'' (elapse 1000 (toast ''first'' (initState 100))))))"
  using stale_revert_fires [of 1000 "''second''" "''first''" "initState 100"]
  by (simp add: initState_def)

text \<open>
  Claim C2 as it is written fails. Two notifications are posted one second apart; three
  seconds after the first one the status bar shows the idle text and not the second
  notification, whose own revert is due one second later.
\<close>

theorem stale_revert_overwrites:
  "statusBar (toast ''second'' (elapse 1000 (toast ''first'' (initState 100)))) =
     ''[yellow]second'' \<and>
   statusBar (elapse 2000 (toast ''second'' (elapse 1000 (toast ''first'' (initState 100))))) =
     idleStatus \<and>
   statusBar (elapse 2000 (toast ''second'' (elapse 1000 (toast ''first'' (initState 100))))) \<noteq>
     ''[yellow]second'' \<and>
   now (elapse 2000 (toast ''second'' (elapse 1000 (toast ''first'' (initState 100))))) = 3000 \<and>
   sleepers (elapse 2000 (toast ''second'' (elapse 1000 (toast ''first'' (initState 100))))) =
     [4000]"
  by (simp add: elapse_def toast_def initState_def Let_def updateStatus_def idleStatus_def)

section \<open>Catalog Navigator\<close>

lemma scanNames_names: "scanNames (map (\<lambda>n. Inr [VText n]) ns) acc = Inr (acc @ ns)"
  by (induction ns arbitrary: acc) simp_all

lemma scanNames_names_rows: "scanNames (rowItems (names_rows ns)) [] = Inr ns"
  by (simp add: names_rows_def scanNames_names)

lemma fold_AddItem: "fold AddItem xs l = l @ xs"
  by (induction xs arbitrary: l) (simp_all add: AddItem_def)

lemma sort_Nil_iff: "sort xs = [] \<longleftrightarrow> xs = []"
  using length_sort [of "\<lambda>x. x" xs] by (cases xs) auto

lemma loadTables_schema:
  "currentSchema (loadTables pool schema s) = currentSchema s"
  "schemaList (loadTables pool schema s) = schemaList s"
  by (simp_all add: loadTables_def Query_def Let_def previewTable_selection loadColumns_selection
      split: sum.splits prod.splits)

lemma loadTables_Query_error:
  "pool tablesSQL [schema] = Inl e \<Longrightarrow>
   tableList (loadTables pool schema s) = tableList s \<and>
   currentTable (loadTables pool schema s) = currentTable s"
  by (simp add: loadTables_def Query_def)

lemma loadTables_scan_error:
  "pool tablesSQL [schema] = Inr rows \<Longrightarrow> scanNames (rowItems rows) [] = Inl e \<Longrightarrow>
   tableList (loadTables pool schema s) = [] \<and>
   currentTable (loadTables pool schema s) = currentTable s"
  by (simp add: loadTables_def Query_def ListClear_def)

lemma loadTables_loaded:
  "pool tablesSQL [schema] = Inr rows \<Longrightarrow> scanNames (rowItems rows) [] = Inr tables \<Longrightarrow>
   tableList (loadTables pool schema s) = tables \<and>
   currentTable (loadTables pool schema s) = (if tables = [] then currentTable s else hd tables)"
  by (simp add: loadTables_def Query_def ListClear_def fold_AddItem Let_def
      previewTable_selection loadColumns_selection hd_conv_nth)

lemma loadSchemas_loaded:
  "pool schemataSQL [] = Inr rows \<Longrightarrow> scanNames (rowItems rows) [] = Inr names \<Longrightarrow>
   loadSchemas pool s =
     (rowsErr rows,
      if names = []
      then s\<lparr>queries := queries s @ [(schemataSQL, [])], schemaList := []\<rparr>
      else loadTables pool (hd (sort names))
             (s\<lparr>queries := queries s @ [(schemataSQL, [])], schemaList := sort names,
                currentSchema := hd (sort names)\<rparr>))"
  by (auto simp: loadSchemas_def Query_def ListClear_def fold_AddItem Let_def hd_conv_nth
      sort_Nil_iff)

lemma listed_loadTables: "listed s \<Longrightarrow> listed (loadTables pool schema s)"
proof (cases "pool tablesSQL [schema]")
  case (Inl e)
  assume "listed s"
  with loadTables_Query_error [where pool = pool and schema = schema and s = s, OF Inl]
  show ?thesis by (simp add: listed_def)
next
  case (Inr rows)
  show ?thesis
  proof (cases "scanNames (rowItems rows) []")
    case (Inl e)
    with loadTables_scan_error [where pool = pool and schema = schema and s = s, OF Inr Inl]
    show ?thesis by (simp add: listed_def)
  next
    case tables: (Inr tables)
    with loadTables_loaded [where pool = pool and schema = schema and s = s, OF Inr tables]
    show ?thesis by (simp add: listed_def)
  qed
qed

lemma listed_loadSchemas: "listed s \<Longrightarrow> listed (snd (loadSchemas pool s))"
  by (auto simp: loadSchemas_def Query_def Let_def listed_loadTables
        split: sum.splits prod.splits intro!: listed_loadTables)
     (simp_all add: listed_def)

lemma reachable_listed: "reachable s \<Longrightarrow> listed s"
proof (induction rule: reachable.induct)
  case (r_init limit)
  show ?case by (simp add: listed_def initState_def)
next
  case (r_loadSchemas s pool)
  then show ?case by (simp add: listed_loadSchemas)
next
  case (r_loadTables s pool schema)
  then show ?case by (simp add: listed_loadTables)
next
  case (r_selectSchema s name pool)
  then have "listed (s\<lparr>currentSchema := name\<rparr>)" by (simp add: listed_def)
  then show ?case unfolding selectSchema_def by (rule listed_loadTables)
next
  case (r_selectTable s name pool)
  then show ?case by (simp add: listed_def selectTable_selection)
next
  case (r_runAdhocQuery s pool q)
  then show ?case by (simp add: listed_def runAdhocQuery_selection)
next
  case (r_refresh s pool)
  then have "listed (snd (loadSchemas pool s))" by (simp add: listed_loadSchemas)
  then show ?case by (simp add: listed_def refresh_def)
next
  case (r_startup pool limit)
  have "listed (initState limit)" by (simp add: listed_def initState_def)
  then have "listed (snd (loadSchemas pool (initState limit)))" by (rule listed_loadSchemas)
  then show ?case
    by (cases "loadSchemas pool (initState limit)")
       (auto simp: listed_def startup_def updateStatus_def split: option.splits)
next
  case (r_elapse s d)
  then show ?case by (simp add: listed_def elapse_selection)
qed

lemma nav_pool_answers:
  "nav_pool schemataSQL [] = Inr (names_rows [''app'', ''staging''])"
  "nav_pool tablesSQL [''app''] = Inr (names_rows [''orders''])"
  "nav_pool tablesSQL [''staging''] = Inr (names_rows [])"
  by (simp_all add: nav_pool_def schemataSQL_def tablesSQL_def)

lemma sort_app_staging: "sort [''app'', ''staging''] = [''app'', ''staging'']"
  by simp

lemma nav_loaded:
  "snd (loadSchemas nav_pool (initState 100)) =
     loadTables nav_pool ''app''
       (initState 100\<lparr>queries := [(schemataSQL, [])], schemaList := [''app'', ''staging''],
          currentSchema := ''app''\<rparr>)"
  by (subst loadSchemas_loaded [where rows = "names_rows [''app'', ''staging'']"
        and names = "[''app'', ''staging'']"])
     (simp_all add: nav_pool_answers scanNames_names_rows sort_app_staging initState_def)

lemma nav_loaded_fields:
  "schemaList (snd (loadSchemas nav_pool (initState 100))) = [''app'', ''staging'']"
  "currentSchema (snd (loadSchemas nav_pool (initState 100))) = ''app''"
  "tableList (snd (loadSchemas nav_pool (initState 100))) = [''orders'']"
  "currentTable (snd (loadSchemas nav_pool (initState 100))) = ''orders''"
  using loadTables_loaded [where pool = nav_pool and schema = "''app''"
      and rows = "names_rows [''orders'']" and tables = "[''orders'']"]
  by (simp_all add: nav_loaded loadTables_schema nav_pool_answers scanNames_names_rows)

text \<open>
  Claim C3, as the code has it. In every state that the operations reach, if the list of
  tables is not empty then \<open>currentTable\<close> is one of its items. \<open>selectSchema(name)\<close> sets
  \<open>currentSchema\<close> to \<open>name\<close> and runs \<open>loadTables(name)\<close> without clearing
  \<open>currentTable\<close>: after a load that returns at least one table, the list holds the tables
  loaded for \<open>name\<close> and \<open>currentTable\<close> is the first of them; after a load that returns no
  table the list is empty and \<open>currentTable\<close> keeps its value; after a load whose query
  fails, the list and \<open>currentTable\<close> keep their values.
\<close>

theorem navigator_selection:
  "(reachable s \<longrightarrow> tableList s \<noteq> [] \<longrightarrow> currentTable s \<in> set (tableList s)) \<and>
   selectSchema pool name s0 = loadTables pool name (s0\<lparr>currentSchema := name\<rparr>) \<and>
   currentTable (s0\<lparr>currentSchema := name\<rparr>) = currentTable s0 \<and>
   currentSchema (selectSchema pool name s0) = name \<and>
   (pool tablesSQL [name] = Inr rows \<and> scanNames (rowItems rows) [] = Inr tables \<and>
    tables \<noteq> [] \<longrightarrow>
      tableList (selectSchema pool name s0) = tables \<and>
      currentTable (selectSchema pool name s0) = hd tables) \<and>
   (pool tablesSQL [name] = Inr rows \<and> scanNames (rowItems rows) [] = Inr [] \<longrightarrow>
      tableList (selectSchema pool name s0) = [] \<and>
      currentTable (selectSchema pool name s0) = currentTable s0) \<and>
   (pool tablesSQL [name] = Inl e \<longrightarrow>
      tableList (selectSchema pool name s0) = tableList s0 \<and>
      currentTable (selectSchema pool name s0) = currentTable s0)"
proof -
  have 1: "reachable s \<longrightarrow> tableList s \<noteq> [] \<longrightarrow> currentTable s \<in> set (tableList s)"
    using reachable_listed [of s] by (auto simp: listed_def)
  have 2: "pool tablesSQL [name] = Inr rows \<and> scanNames (rowItems rows) [] = Inr tables \<and>
      tables \<noteq> [] \<longrightarrow>
      tableList (selectSchema pool name s0) = tables \<and>
      currentTable (selectSchema pool name s0) = hd tables"
    using loadTables_loaded [where pool = pool and schema = name and rows = rows
        and tables = tables and s = "s0\<lparr>currentSchema := name\<rparr>"]
    by (simp add: selectSchema_def)
  have 3: "pool tablesSQL [name] = Inr rows \<and> scanNames (rowItems rows) [] = Inr [] \<longrightarrow>
      tableList (selectSchema pool name s0) = [] \<and>
      currentTable (selectSchema pool name s0) = currentTable s0"
    using loadTables_loaded [where pool = pool and schema = name and rows = rows
        and tables = "[]" and s = "s0\<lparr>currentSchema := name\<rparr>"]
    by (simp add: selectSchema_def)
  have 4: "pool tablesSQL [name] = Inl e \<longrightarrow>
      tableList (selectSchema pool name s0) = tableList s0 \<and>
      currentTable (selectSchema pool name s0) = currentTable s0"
    using loadTables_Query_error [where pool = pool and schema = name and e = e
        and s = "s0\<lparr>currentSchema := name\<rparr>"]
    by (simp add: selectSchema_def)
  from 1 2 3 4 show ?thesis
    by (simp add: selectSchema_def loadTables_schema)
qed

theorem navigator_selection_witness:
  "reachable (snd (loadSchemas nav_pool (initState 100))) \<and>
   currentTable (snd (loadSchemas nav_pool (initState 100))) \<in>
     set (tableList (snd (loadSchemas nav_pool (initState 100)))) \<and>
   tableList (selectSchema nav_pool ''app'' (initState 100)) = [''orders''] \<and>
   currentTable (selectSchema nav_pool ''app'' (initState 100)) = ''orders'' \<and>
   currentTable (selectSchema nav_pool ''staging'' (snd (loadSchemas nav_pool (initState 100)))) =
     ''orders'' \<and>
   currentTable (selectSchema down_pool ''staging'' (snd (loadSchemas nav_pool (initState 100)))) =
     ''orders'' \<and>
   tableList (selectSchema down_pool ''staging'' (snd (loadSchemas nav_pool (initState 100)))) =
     [''orders'']"
proof -
  let ?s1 = "snd (loadSchemas nav_pool (initState 100))"
  have r: "reachable ?s1" by (intro r_loadSchemas r_init)
  have t: "tableList ?s1 \<noteq> []" by (simp add: nav_loaded_fields)
  from r t navigator_selection [of ?s1]
  have a: "currentTable ?s1 \<in> set (tableList ?s1)" by blast
  have "nav_pool tablesSQL [''app''] = Inr (names_rows [''orders'']) \<and>
        scanNames (rowItems (names_rows [''orders''])) [] = Inr [''orders''] \<and>
        [''orders''] \<noteq> []"
    by (simp add: nav_pool_answers scanNames_names_rows)
  with navigator_selection [of _ nav_pool "''app''" "initState 100" "names_rows [''orders'']"
      "[''orders'']"]
  have b: "tableList (selectSchema nav_pool ''app'' (initState 100)) = [''orders''] \<and>
     currentTable (selectSchema nav_pool ''app'' (initState 100)) = hd [''orders'']"
    by blast
  have "nav_pool tablesSQL [''staging''] = Inr (names_rows []) \<and>
        scanNames (rowItems (names_rows [])) [] = Inr []"
    by (simp add: nav_pool_answers scanNames_names_rows)
  with navigator_selection [of _ nav_pool "''staging''" ?s1 "names_rows []"]
  have c: "currentTable (selectSchema nav_pool ''staging'' ?s1) = currentTable ?s1"
    by blast
  have "down_pool tablesSQL [''staging''] = Inl (Error ''connection refused'')"
    by (simp add: down_pool_def)
  with navigator_selection [of _ down_pool "''staging''" ?s1 _ _ "Error ''connection refused''"]
  have d: "currentTable (selectSchema down_pool ''staging'' ?s1) = currentTable ?s1 \<and>
     tableList (selectSchema down_pool ''staging'' ?s1) = tableList ?s1"
    by blast
  from r a b c d show ?thesis by (simp add: nav_loaded_fields)
qed

text \<open>
  Claim C3 as it is written fails. The schemas are loaded (\<open>app\<close> is selected, its table
  \<open>orders\<close> becomes \<open>currentTable\<close>), then the schema \<open>staging\<close>, which has no table, is
  selected: \<open>currentSchema\<close> is \<open>staging\<close>, the tables loaded for it are none, and
  \<open>currentTable\<close> is still \<open>orders\<close>.
\<close>

theorem stale_table_after_schema_change:
  "reachable (selectSchema nav_pool ''staging'' (snd (loadSchemas nav_pool (initState 100)))) \<and>
   currentTable (snd (loadSchemas nav_pool (initState 100))) = ''orders'' \<and>
   nav_pool tablesSQL [''staging''] = Inr (names_rows []) \<and>
   scanNames (rowItems (names_rows [])) [] = Inr [] \<and>
   currentSchema (selectSchema nav_pool ''staging'' (snd (loadSchemas nav_pool (initState 100)))) =
     ''staging'' \<and>
   tableList (selectSchema nav_pool ''staging'' (snd (loadSchemas nav_pool (initState 100)))) =
     [] \<and>
   currentTable (selectSchema nav_pool ''staging'' (snd (loadSchemas nav_pool (initState 100)))) =
     ''orders'' \<and>
   currentTable (selectSchema nav_pool ''staging'' (snd (loadSchemas nav_pool (initState 100)))) \<noteq>
     [] \<and>
   currentTable (selectSchema nav_pool ''staging'' (snd (loadSchemas nav_pool (initState 100)))) \<notin>
     set (tableList
            (selectSchema nav_pool ''staging'' (snd (loadSchemas nav_pool (initState 100)))))"
proof -
  let ?s1 = "snd (loadSchemas nav_pool (initState 100))"
  have r: "reachable (selectSchema nav_pool ''staging'' ?s1)"
    by (intro r_selectSchema r_loadSchemas r_init) (simp add: nav_loaded_fields)
  have l: "tableList (loadTables nav_pool ''staging'' (?s1\<lparr>currentSchema := ''staging''\<rparr>)) = [] \<and>
     currentTable (loadTables nav_pool ''staging'' (?s1\<lparr>currentSchema := ''staging''\<rparr>)) =
       currentTable (?s1\<lparr>currentSchema := ''staging''\<rparr>)"
    using loadTables_loaded [where pool = nav_pool and schema = "''staging''"
      and rows = "names_rows []" and tables = "[]"
      and s = "?s1\<lparr>currentSchema := ''staging''\<rparr>"]
    by (simp add: nav_pool_answers scanNames_names_rows)
  from r l show ?thesis
    by (simp add: selectSchema_def loadTables_schema nav_loaded_fields nav_pool_answers
        scanNames_names_rows)
qed

lemma parse_schemataSQL:
  "parse_schemata (lex [] schemataSQL) = Some [''pg_toast'', ''pg_temp_1'', ''pg_toast_temp_1'']"
  by code_simp

lemma pg_schemata_answer:
  "pg_schemata catalog other schemataSQL [] =
     Inr \<lparr>FieldDescriptions = [''schema_name''],
          rowItems = map (\<lambda>n. Inr [VText n])
            (filter (\<lambda>n. n \<notin> set [''pg_toast'', ''pg_temp_1'', ''pg_toast_temp_1'']) catalog),
          rowsErr = None, elapsed = ''1ms''\<rparr>"
  by (simp add: pg_schemata_def parse_schemataSQL)

text \<open>
  Claim C9. Against a database that holds the schema names \<open>catalog\<close> and answers the query
  that \<open>loadSchemas\<close> sends by the \<open>WHERE\<close> clause of that query, \<open>loadSchemas\<close> succeeds and
  fills the schema list with exactly the names of the catalog other than \<open>pg_toast\<close>,
  \<open>pg_temp_1\<close> and \<open>pg_toast_temp_1\<close>, sorted lexicographically. When there is at least
  one such name, the smallest becomes \<open>currentSchema\<close> and the tables are loaded for it.
\<close>

theorem loadSchemas_sorted_selection:
  "schemaList (snd (loadSchemas (pg_schemata catalog other) s)) =
     sort (filter (\<lambda>n. n \<notin> set [''pg_toast'', ''pg_temp_1'', ''pg_toast_temp_1'']) catalog) \<and>
   set (schemaList (snd (loadSchemas (pg_schemata catalog other) s))) =
     set catalog - {''pg_toast'', ''pg_temp_1'', ''pg_toast_temp_1''} \<and>
   sorted (schemaList (snd (loadSchemas (pg_schemata catalog other) s))) \<and>
   fst (loadSchemas (pg_schemata catalog other) s) = None \<and>
   (set catalog - {''pg_toast'', ''pg_temp_1'', ''pg_toast_temp_1''} \<noteq> {} \<longrightarrow>
      currentSchema (snd (loadSchemas (pg_schemata catalog other) s)) =
        hd (schemaList (snd (loadSchemas (pg_schemata catalog other) s))) \<and>
      (\<forall>n\<in>set (schemaList (snd (loadSchemas (pg_schemata catalog other) s))).
         currentSchema (snd (loadSchemas (pg_schemata catalog other) s)) \<le> n) \<and>
      snd (loadSchemas (pg_schemata catalog other) s) =
        loadTables (pg_schemata catalog other)
          (hd (sort (filter (\<lambda>n. n \<notin> set [''pg_toast'', ''pg_temp_1'', ''pg_toast_temp_1''])
                  catalog)))
          (s\<lparr>queries := queries s @ [(schemataSQL, [])],
             schemaList :=
               sort (filter (\<lambda>n. n \<notin> set [''pg_toast'', ''pg_temp_1'', ''pg_toast_temp_1''])
                  catalog),
             currentSchema :=
               hd (sort (filter (\<lambda>n. n \<notin> set [''pg_toast'', ''pg_temp_1'', ''pg_toast_temp_1''])
                  catalog))\<rparr>))"
proof -
  define ns where
    "ns = filter (\<lambda>n. n \<notin> set [''pg_toast'', ''pg_temp_1'', ''pg_toast_temp_1'']) catalog"
  define rows where
    "rows = \<lparr>FieldDescriptions = [''schema_name''], rowItems = map (\<lambda>n. Inr [VText n]) ns,
       rowsErr = None, elapsed = ''1ms''\<rparr>"
  define pool where "pool = pg_schemata catalog other"
  have q: "pool schemataSQL [] = Inr rows"
    unfolding pool_def rows_def ns_def by (rule pg_schemata_answer)
  have sc: "scanNames (rowItems rows) [] = Inr ns"
    by (simp add: rows_def scanNames_names)
  note ls = loadSchemas_loaded [where pool = pool and s = s, OF q sc]
  have err: "fst (loadSchemas pool s) = None"
    by (simp add: ls rows_def)
  have list: "schemaList (snd (loadSchemas pool s)) = sort ns"
    by (simp add: ls loadTables_schema)
  have setns: "set ns = set catalog - {''pg_toast'', ''pg_temp_1'', ''pg_toast_temp_1''}"
    by (auto simp: ns_def)
  have least: "ns \<noteq> [] \<Longrightarrow> \<forall>n\<in>set (sort ns). hd (sort ns) \<le> n"
  proof -
    assume "ns \<noteq> []"
    then obtain a as where as: "sort ns = a # as"
      by (cases "sort ns") (auto simp: sort_Nil_iff)
    have "sorted (a # as)" using sorted_sort [of ns] by (simp add: as)
    then show ?thesis by (auto simp: as)
  qed
  have sel: "ns \<noteq> [] \<Longrightarrow>
      snd (loadSchemas pool s) =
        loadTables pool (hd (sort ns))
          (s\<lparr>queries := queries s @ [(schemataSQL, [])], schemaList := sort ns,
             currentSchema := hd (sort ns)\<rparr>)"
    by (simp add: ls)
  have cur: "ns \<noteq> [] \<Longrightarrow> currentSchema (snd (loadSchemas pool s)) = hd (sort ns)"
    by (simp add: ls loadTables_schema)
  have nonempty: "set catalog - {''pg_toast'', ''pg_temp_1'', ''pg_toast_temp_1''} \<noteq> {} \<longleftrightarrow> ns \<noteq> []"
    using setns by (metis set_empty)
  have "schemaList (snd (loadSchemas pool s)) = sort ns \<and>
   set (schemaList (snd (loadSchemas pool s))) =
     set catalog - {''pg_toast'', ''pg_temp_1'', ''pg_toast_temp_1''} \<and>
   sorted (schemaList (snd (loadSchemas pool s))) \<and>
   fst (loadSchemas pool s) = None \<and>
   (set catalog - {''pg_toast'', ''pg_temp_1'', ''pg_toast_temp_1''} \<noteq> {} \<longrightarrow>
      currentSchema (snd (loadSchemas pool s)) = hd (schemaList (snd (loadSchemas pool s))) \<and>
      (\<forall>n\<in>set (schemaList (snd (loadSchemas pool s))).
         currentSchema (snd (loadSchemas pool s)) \<le> n) \<and>
      snd (loadSchemas pool s) =
        loadTables pool (hd (sort ns))
          (s\<lparr>queries := queries s @ [(schemataSQL, [])], schemaList := sort ns,
             currentSchema := hd (sort ns)\<rparr>))"
  proof (intro conjI impI)
    show "schemaList (snd (loadSchemas pool s)) = sort ns" by (rule list)
    show "set (schemaList (snd (loadSchemas pool s))) =
        set catalog - {''pg_toast'', ''pg_temp_1'', ''pg_toast_temp_1''}"
      by (simp add: list setns)
    show "sorted (schemaList (snd (loadSchemas pool s)))" by (simp add: list)
    show "fst (loadSchemas pool s) = None" by (rule err)
  next
    assume "set catalog - {''pg_toast'', ''pg_temp_1'', ''pg_toast_temp_1''} \<noteq> {}"
    then have ne: "ns \<noteq> []" unfolding nonempty .
    show "currentSchema (snd (loadSchemas pool s)) = hd (schemaList (snd (loadSchemas pool s)))"
      by (simp add: cur [OF ne] list)
    show "\<forall>n\<in>set (schemaList (snd (loadSchemas pool s))).
        currentSchema (snd (loadSchemas pool s)) \<le> n"
      using least [OF ne] by (simp add: cur [OF ne] list)
    show "snd (loadSchemas pool s) =
        loadTables pool (hd (sort ns))
          (s\<lparr>queries := queries s @ [(schemataSQL, [])], schemaList := sort ns,
             currentSchema := hd (sort ns)\<rparr>)"
      by (rule sel [OF ne])
  qed
  then show ?thesis unfolding pool_def ns_def .
qed

theorem loadSchemas_sorted_selection_witness:
  "schemaList
     (snd (loadSchemas (pg_schemata [''public'', ''pg_toast'', ''analytics''] down_pool)
        (initState 100))) =
     [''analytics'', ''public''] \<and>
   currentSchema
     (snd (loadSchemas (pg_schemata [''public'', ''pg_toast'', ''analytics''] down_pool)
        (initState 100))) =
     ''analytics''"
proof -
  let ?cat = "[''public'', ''pg_toast'', ''analytics'']"
  have f: "filter (\<lambda>n. n \<notin> set [''pg_toast'', ''pg_temp_1'', ''pg_toast_temp_1'']) ?cat =
      [''public'', ''analytics'']"
    by simp
  have s: "sort [''public'', ''analytics''] = [''analytics'', ''public'']"
    by simp
  have ne: "set ?cat - {''pg_toast'', ''pg_temp_1'', ''pg_toast_temp_1''} \<noteq> {}"
    by auto
  from loadSchemas_sorted_selection [of ?cat down_pool "initState 100"]
  have "schemaList (snd (loadSchemas (pg_schemata ?cat down_pool) (initState 100))) =
      sort (filter (\<lambda>n. n \<notin> set [''pg_toast'', ''pg_temp_1'', ''pg_toast_temp_1'']) ?cat) \<and>
    (set ?cat - {''pg_toast'', ''pg_temp_1'', ''pg_toast_temp_1''} \<noteq> {} \<longrightarrow>
     currentSchema (snd (loadSchemas (pg_schemata ?cat down_pool) (initState 100))) =
      hd (schemaList (snd (loadSchemas (pg_schemata ?cat down_pool) (initState 100)))))"
    by blast
  with ne have "schemaList (snd (loadSchemas (pg_schemata ?cat down_pool) (initState 100))) =
      sort (filter (\<lambda>n. n \<notin> set [''pg_toast'', ''pg_temp_1'', ''pg_toast_temp_1'']) ?cat) \<and>
     currentSchema (snd (loadSchemas (pg_schemata ?cat down_pool) (initState 100))) =
      hd (schemaList (snd (loadSchemas (pg_schemata ?cat down_pool) (initState 100))))"
    by blast
  then show ?thesis unfolding f s by simp
qed

end
